theory Spec2Isabelle
  imports Complex_Main "HOL-Library.Word"
begin

section \<open>Global alignment of two feature sequences\<close>

text \<open>
  A feature sequence is a \<open>vector<optional<int>>\<close>: a list of optional integers, where
  \<open>None\<close> is \<open>nullopt\<close> (a rest). The elements are only compared. The scores, the
  penalties and the cells of the two columns are C++ \<open>int\<close>s on which the program
  multiplies and adds: they are words of 32 bits, read as two's complement numbers by
  \<open>sint\<close>, so that a sum or a product beyond the range of \<open>int\<close> wraps around as it
  does in the compiled program. The loop counters \<open>i\<close> and \<open>j\<close> are \<open>int\<close>s as well;
  they are counted here with natural numbers, which is the same for sequences of fewer
  than \<open>2 ^ 31\<close> elements.
\<close>

type_synonym feature = "int option list"

type_synonym int32 = "32 word"

definition INT_MIN :: int where "INT_MIN = - 2147483648"
definition INT_MAX :: int where "INT_MAX = 2147483647"

text \<open>\<open>std::min\<close> on two \<open>int\<close>s.\<close>

definition std_min :: "int32 \<Rightarrow> int32 \<Rightarrow> int32" where
  "std_min a b = (if b <s a then b else a)"

definition min_of_three :: "int32 \<Rightarrow> int32 \<Rightarrow> int32 \<Rightarrow> int32" where
  "min_of_three a b c = std_min (std_min a b) c"

text \<open>
  The \<open>if / else if / else\<close> chain in the body of the inner loop of \<open>global_alignment\<close>
  that sets the local variable \<open>score\<close>.
\<close>

definition cell_score :: "int option \<Rightarrow> int option \<Rightarrow> int32 \<Rightarrow> int32 \<Rightarrow> int32" where
  "cell_score x y match_score mismatch_penalty =
     (if x = None \<and> y = None then match_score
      else if x \<noteq> None \<and> y \<noteq> None then
        (if the x = the y then match_score else mismatch_penalty)
      else mismatch_penalty)"

text \<open>The first loop: \<open>prev_column[i] = i * gap_penalty\<close> for \<open>i = 0 .. f2_size\<close>.\<close>

definition init_column :: "nat \<Rightarrow> int32 \<Rightarrow> int32 list" where
  "init_column f2_size gap_penalty =
     fold (\<lambda>i col. col[i := of_nat i * gap_penalty]) [0..<Suc f2_size]
       (replicate (Suc f2_size) 0)"

text \<open>One pass of the inner loop body, at row \<open>i\<close> and column index \<open>j\<close>.\<close>

definition inner_body ::
  "feature \<Rightarrow> feature \<Rightarrow> int32 \<Rightarrow> int32 \<Rightarrow> int32 \<Rightarrow> nat \<Rightarrow> int32 list \<Rightarrow> nat \<Rightarrow> int32 list
     \<Rightarrow> int32 list"
where
  "inner_body score_1_feature score_2_feature match_score mismatch_penalty gap_penalty
      i prev_column j current_column =
     (let score = cell_score (score_1_feature ! (i - 1)) (score_2_feature ! (j - 1))
                    match_score mismatch_penalty
      in current_column[j := min_of_three
            (prev_column ! (j - 1) + score)
            (prev_column ! j + gap_penalty)
            (current_column ! (j - 1) + gap_penalty)])"

text \<open>
  One pass of the outer loop body: \<open>current_column[0] = i * gap_penalty\<close>, the inner loop
  for \<open>j = 1 .. f2_size\<close>, then \<open>prev_column = current_column\<close>. The state is the pair
  \<open>(prev_column, current_column)\<close>.
\<close>

definition outer_body ::
  "feature \<Rightarrow> feature \<Rightarrow> int32 \<Rightarrow> int32 \<Rightarrow> int32 \<Rightarrow> nat \<Rightarrow> int32 list \<times> int32 list
     \<Rightarrow> int32 list \<times> int32 list"
where
  "outer_body score_1_feature score_2_feature match_score mismatch_penalty gap_penalty i st =
     (let prev_column = fst st;
          current_column = (snd st)[0 := of_nat i * gap_penalty];
          current_column' =
            fold (inner_body score_1_feature score_2_feature match_score mismatch_penalty
                    gap_penalty i prev_column)
              [1..<Suc (length score_2_feature)] current_column
      in (current_column', current_column'))"

definition global_alignment :: "feature \<Rightarrow> feature \<Rightarrow> int32 \<Rightarrow> int32 \<Rightarrow> int32 \<Rightarrow> int32" where
  "global_alignment score_1_feature score_2_feature match_score mismatch_penalty gap_penalty =
     (let f1_size = length score_1_feature;
          f2_size = length score_2_feature;
          prev_column = init_column f2_size gap_penalty;
          current_column = prev_column;
          st = fold (outer_body score_1_feature score_2_feature match_score mismatch_penalty
                       gap_penalty)
                 [1..<Suc f1_size] (prev_column, current_column)
      in snd st ! f2_size)"

subsection \<open>The full-matrix reference of the specification\<close>

text \<open>
  The specification's \<open>pairScore\<close>: the match score when both elements are absent or both
  are present and equal, the mismatch penalty otherwise.
\<close>

fun pairScore :: "int option \<Rightarrow> int option \<Rightarrow> 'a \<Rightarrow> 'a \<Rightarrow> 'a" where
  "pairScore None None match_score mismatch_penalty = match_score"
| "pairScore (Some u) (Some v) match_score mismatch_penalty =
     (if u = v then match_score else mismatch_penalty)"
| "pairScore _ _ match_score mismatch_penalty = mismatch_penalty"

text \<open>
  The specification's grid of \<open>(m + 1) \<times> (n + 1)\<close> cells over the integers: row and
  column 0 hold the index times the gap penalty, and every other cell is the minimum of
  the three neighbours' costs. The distance is the bottom-right cell.
\<close>

fun cost :: "feature \<Rightarrow> feature \<Rightarrow> int \<Rightarrow> int \<Rightarrow> int \<Rightarrow> nat \<Rightarrow> nat \<Rightarrow> int" where
  "cost a b ms mp gp 0 j = int j * gp"
| "cost a b ms mp gp (Suc i) 0 = int (Suc i) * gp"
| "cost a b ms mp gp (Suc i) (Suc j) =
     min (cost a b ms mp gp i j + pairScore (a ! i) (b ! j) ms mp)
       (min (cost a b ms mp gp i (Suc j) + gp)
            (cost a b ms mp gp (Suc i) j + gp))"

definition SequenceDistance :: "feature \<Rightarrow> feature \<Rightarrow> int \<Rightarrow> int \<Rightarrow> int \<Rightarrow> int" where
  "SequenceDistance a b ms mp gp = cost a b ms mp gp (length a) (length b)"

text \<open>The same grid filled with the arithmetic of \<open>int\<close>, and its rows.\<close>

fun cost32 :: "feature \<Rightarrow> feature \<Rightarrow> int32 \<Rightarrow> int32 \<Rightarrow> int32 \<Rightarrow> nat \<Rightarrow> nat \<Rightarrow> int32" where
  "cost32 a b ms mp gp 0 j = of_nat j * gp"
| "cost32 a b ms mp gp (Suc i) 0 = of_nat (Suc i) * gp"
| "cost32 a b ms mp gp (Suc i) (Suc j) =
     min_of_three (cost32 a b ms mp gp i j + pairScore (a ! i) (b ! j) ms mp)
       (cost32 a b ms mp gp i (Suc j) + gp)
       (cost32 a b ms mp gp (Suc i) j + gp)"

definition cost32_row :: "feature \<Rightarrow> feature \<Rightarrow> int32 \<Rightarrow> int32 \<Rightarrow> int32 \<Rightarrow> nat \<Rightarrow> int32 list" where
  "cost32_row a b ms mp gp i = map (cost32 a b ms mp gp i) [0..<Suc (length b)]"

definition SequenceDistance32 :: "feature \<Rightarrow> feature \<Rightarrow> int32 \<Rightarrow> int32 \<Rightarrow> int32 \<Rightarrow> int32" where
  "SequenceDistance32 a b ms mp gp = cost32 a b ms mp gp (length a) (length b)"

text \<open>
  A condition under which no product and no sum in the grid leaves the range of \<open>int\<close>:
  the sum of the two lengths times the largest magnitude among the three parameters is
  at most \<open>INT_MAX\<close>.
\<close>

definition parameter_bound :: "int32 \<Rightarrow> int32 \<Rightarrow> int32 \<Rightarrow> int" where
  "parameter_bound ms mp gp = max \<bar>sint ms\<bar> (max \<bar>sint mp\<bar> \<bar>sint gp\<bar>)"

definition within_int :: "feature \<Rightarrow> feature \<Rightarrow> int32 \<Rightarrow> int32 \<Rightarrow> int32 \<Rightarrow> bool" where
  "within_int a b ms mp gp =
     (int (length a + length b) * parameter_bound ms mp gp \<le> INT_MAX)"


section \<open>Parsing a textual feature\<close>

text \<open>
  \<open>std::stoi\<close> of the C++ standard library, base 10: leading white space is skipped, an
  optional sign is read, then the longest run of decimal digits; what follows the digits
  is ignored. No digit raises \<open>invalid_argument\<close>; a value outside the range of \<open>int\<close>
  raises \<open>out_of_range\<close>.
\<close>

datatype stoi_exception = invalid_argument | out_of_range

definition isspace :: "char \<Rightarrow> bool" where
  "isspace c = (c \<in> set [CHR '' '', CHR 0x09, CHR 0x0A, CHR 0x0B, CHR 0x0C, CHR 0x0D])"

definition isdigit :: "char \<Rightarrow> bool" where
  "isdigit c = (c \<in> set ''0123456789'')"

definition digit_value :: "char \<Rightarrow> int" where
  "digit_value c = int (of_char c) - 48"

definition stoi :: "string \<Rightarrow> stoi_exception + int" where
  "stoi str =
     (let s1 = dropWhile isspace str;
          negative = (s1 \<noteq> [] \<and> hd s1 = CHR ''-'');
          s2 = (if s1 \<noteq> [] \<and> (hd s1 = CHR ''-'' \<or> hd s1 = CHR ''+'') then tl s1 else s1);
          digits = takeWhile isdigit s2;
          magnitude = foldl (\<lambda>acc c. acc * 10 + digit_value c) 0 digits;
          v = (if negative then - magnitude else magnitude)
      in if digits = [] then Inl invalid_argument
         else if v < INT_MIN \<or> INT_MAX < v then Inl out_of_range
         else Inr v)"

text \<open>
  \<open>getline(ss, value, delim)\<close> on the characters still unread in the stream: it fails at the
  end of the stream, and otherwise extracts the characters up to the next delimiter (or the
  end) and consumes the delimiter.
\<close>

definition getline :: "string \<Rightarrow> char \<Rightarrow> (string \<times> string) option" where
  "getline ss delim =
     (if ss = [] then None
      else let value = takeWhile (\<lambda>c. c \<noteq> delim) ss
           in Some (value, drop (Suc (length value)) ss))"

text \<open>The line that the \<open>catch\<close> clause of an exception of \<open>stoi\<close> writes to \<open>cerr\<close>.\<close>

fun diagnostic :: "stoi_exception \<Rightarrow> string \<Rightarrow> string" where
  "diagnostic invalid_argument value = ''Invalid value in feature: '' @ value"
| "diagnostic out_of_range value = ''Value out of range: '' @ value"

text \<open>
  The body of the \<open>while\<close> loop of \<open>convert_feature_to_vector\<close>. The state is the vector
  \<open>result\<close> and the lines written to \<open>cerr\<close>.
\<close>

definition convert_body ::
  "string \<Rightarrow> int option list \<times> string list \<Rightarrow> int option list \<times> string list"
where
  "convert_body value st =
     (let result = fst st; cerr = snd st
      in if value = [] then (result, cerr)
         else if value = ''r'' then (result @ [None], cerr)
         else (case stoi value of
                 Inr v \<Rightarrow> (result @ [Some v], cerr)
               | Inl e \<Rightarrow> (result @ [None], cerr @ [diagnostic e value])))"

function convert_loop ::
  "string \<Rightarrow> int option list \<times> string list \<Rightarrow> int option list \<times> string list"
where
  "convert_loop ss st =
     (case getline ss (CHR '';'') of
        None \<Rightarrow> st
      | Some (value, ss') \<Rightarrow> convert_loop ss' (convert_body value st))"
  by pat_completeness auto
termination
  by (relation "measure (\<lambda>(ss, st). length ss)")
     (auto simp: getline_def Let_def split: if_splits)

declare convert_loop.simps [simp del]

definition convert_feature_to_vector :: "string \<Rightarrow> int option list \<times> string list" where
  "convert_feature_to_vector feature = convert_loop feature ([], [])"

text \<open>The values that successive calls of \<open>getline\<close> extract from a stream.\<close>

function tokens :: "string \<Rightarrow> char \<Rightarrow> string list" where
  "tokens ss delim =
     (case getline ss delim of
        None \<Rightarrow> []
      | Some (value, ss') \<Rightarrow> value # tokens ss' delim)"
  by pat_completeness auto
termination
  by (relation "measure (\<lambda>(ss, delim). length ss)")
     (auto simp: getline_def Let_def split: if_splits)

declare tokens.simps [simp del]

text \<open>
  The tokens of a feature: the values between the delimiters \<open>;\<close>, without the empty
  ones, which the loop skips.
\<close>

definition feature_tokens :: "string \<Rightarrow> string list" where
  "feature_tokens feature = filter (\<lambda>value. value \<noteq> []) (tokens feature (CHR '';''))"

section \<open>The data of \<open>common.hpp\<close> and the database\<close>

record FeatureData =
  id' :: int
  diatonic_feature :: feature
  chromatic_feature :: feature
  rhythmic_feature :: feature
  diatonic_rhythmic_feature :: feature
  chromatic_rhythmic_feature :: feature

record AlignmentScores =
  id1 :: int
  id2 :: int
  level :: string
  diatonic_score :: int
  chromatic_score :: int
  rhythmic_score :: int
  diatonic_rhythmic_score :: int
  chromatic_rhythmic_score :: int

text \<open>
  A row of one of the two alignment tables, as \<open>save_alignments_batch\<close> binds it: the two
  ids, the level (table \<open>ScoreAlignment\<close> only) and the five scores.
\<close>

datatype row =
  SegmentAlignment int int int int int int int
| ScoreAlignment int int string int int int int int

fun row_id1 :: "row \<Rightarrow> int" where
  "row_id1 (SegmentAlignment a b _ _ _ _ _) = a"
| "row_id1 (ScoreAlignment a b _ _ _ _ _ _) = a"

fun row_id2 :: "row \<Rightarrow> int" where
  "row_id2 (SegmentAlignment a b _ _ _ _ _) = b"
| "row_id2 (ScoreAlignment a b _ _ _ _ _ _) = b"

fun row_scores :: "row \<Rightarrow> int list" where
  "row_scores (SegmentAlignment _ _ d c r dr cr) = [d, c, r, dr, cr]"
| "row_scores (ScoreAlignment _ _ _ d c r dr cr) = [d, c, r, dr, cr]"

text \<open>The SQL statements that the program prepares.\<close>

datatype statement =
  InsertSegmentAlignment
| InsertScoreAlignment
| SelectScoreIds
| SelectSegmentFeatures
| SelectScoreFeatures
| SelectStructuralFeature
| SelectGroupOccurrences
| SelectMaxGroupId

text \<open>
  The SQLite database as the program sees it. The answers of the read-only queries are
  fields of the state; \<open>prepares\<close> tells whether \<open>sqlite3_prepare_v2\<close> succeeds on a
  statement, \<open>accepts\<close> whether \<open>sqlite3_step\<close> of an insert returns \<open>SQLITE_DONE\<close> given
  the rows inserted so far. \<open>inserted\<close> collects the rows of the two alignment tables in
  the order of insertion, \<open>journal\<close> the statements run through \<open>sqlite3_exec\<close>. Text
  columns may be \<open>NULL\<close> (\<open>None\<close>). The progress lines written to \<open>cout\<close> and the
  messages on \<open>cerr\<close> about failed statements are not part of the state.
\<close>

type_synonym feature_columns =
  "int \<times> string option \<times> string option \<times> string option \<times> string option \<times> string option"

record database =
  prepares :: "statement \<Rightarrow> bool"
  accepts :: "row list \<Rightarrow> row \<Rightarrow> bool"
  inserted :: "row list"
  journal :: "string list"
  score_ids :: "int list"
  score_features :: "feature_columns list"
  segment_features :: "feature_columns list"
  group_ids :: "int \<Rightarrow> string \<Rightarrow> int list"
  max_group :: "string \<Rightarrow> int option"

definition sqlite3_exec :: "database \<Rightarrow> string \<Rightarrow> database" where
  "sqlite3_exec db sql = db\<lparr>journal := journal db @ [sql]\<rparr>"

text \<open>
  \<open>initialize_database\<close>: \<open>opened\<close> is the outcome of \<open>sqlite3_open\<close>, \<open>None\<close> when the
  database cannot be opened.
\<close>

definition initialize_database :: "database option \<Rightarrow> database option" where
  "initialize_database opened =
     (case opened of
        None \<Rightarrow> None
      | Some db \<Rightarrow>
          Some (fold (\<lambda>sql d. sqlite3_exec d sql)
                  [''PRAGMA journal_mode=WAL'', ''PRAGMA synchronous=OFF'',
                   ''PRAGMA temp_store=MEMORY'', ''PRAGMA locking_mode=EXCLUSIVE'',
                   ''PRAGMA cache_size=-2000000'', ''PRAGMA mmap_size=8589934592'',
                   ''PRAGMA page_size=4096'', ''BEGIN TRANSACTION''] db))"

text \<open>The values bound to the insert statement for one record.\<close>

definition bind_row :: "bool \<Rightarrow> AlignmentScores \<Rightarrow> row" where
  "bind_row is_segment a =
     (if is_segment then
        SegmentAlignment (min (id1 a) (id2 a)) (max (id1 a) (id2 a))
          (diatonic_score a) (chromatic_score a) (rhythmic_score a)
          (diatonic_rhythmic_score a) (chromatic_rhythmic_score a)
      else
        ScoreAlignment (min (id1 a) (id2 a)) (max (id1 a) (id2 a)) (level a)
          (diatonic_score a) (chromatic_score a) (rhythmic_score a)
          (diatonic_rhythmic_score a) (chromatic_rhythmic_score a))"

text \<open>One pass of the loop of \<open>save_alignments_batch\<close>: bind, step, reset.\<close>

definition insert_alignment :: "bool \<Rightarrow> AlignmentScores \<Rightarrow> database \<Rightarrow> database" where
  "insert_alignment is_segment a db =
     (let r = bind_row is_segment a
      in if accepts db (inserted db) r then db\<lparr>inserted := inserted db @ [r]\<rparr> else db)"

definition save_alignments_batch :: "database \<Rightarrow> AlignmentScores list \<Rightarrow> bool \<Rightarrow> database" where
  "save_alignments_batch db alignments is_segment =
     (if \<not> prepares db (if is_segment then InsertSegmentAlignment else InsertScoreAlignment)
      then db
      else fold (insert_alignment is_segment) alignments db)"

definition get_all_score_ids :: "database \<Rightarrow> int list" where
  "get_all_score_ids db = (if \<not> prepares db SelectScoreIds then [] else score_ids db)"

section \<open>Reading the features\<close>

definition get_structural_feature :: "database \<Rightarrow> int \<Rightarrow> string \<Rightarrow> feature" where
  "get_structural_feature db score_id feature_type =
     (if \<not> prepares db SelectStructuralFeature then []
      else map Some (group_ids db score_id feature_type))"

definition column_text :: "string option \<Rightarrow> string" where
  "column_text c = (case c of None \<Rightarrow> [] | Some t \<Rightarrow> t)"

text \<open>
  The rows that stepping through a feature query yields. The query of the structural mode
  selects the score ids alone.
\<close>

definition query_rows :: "database \<Rightarrow> statement \<Rightarrow> feature_columns list" where
  "query_rows db sql =
     (if sql = SelectSegmentFeatures then segment_features db
      else if sql = SelectScoreIds then
        map (\<lambda>i. (i, None, None, None, None, None)) (score_ids db)
      else score_features db)"

definition get_feature_data :: "database \<Rightarrow> bool \<Rightarrow> bool \<Rightarrow> FeatureData list" where
  "get_feature_data db is_segment is_structure =
     (let sql = (if is_segment then SelectSegmentFeatures
                 else if is_structure then SelectScoreIds
                 else SelectScoreFeatures)
      in if \<not> prepares db sql then []
         else map (\<lambda>(i, diatonic, chromatic, rhythmic, diatonic_rhythmic, chromatic_rhythmic).
                if is_structure then
                  \<lparr>id' = i,
                   diatonic_feature = get_structural_feature db i ''diatonic'',
                   chromatic_feature = get_structural_feature db i ''chromatic'',
                   rhythmic_feature = get_structural_feature db i ''rhythmic'',
                   diatonic_rhythmic_feature =
                     get_structural_feature db i ''diatonic_rhythmic'',
                   chromatic_rhythmic_feature =
                     get_structural_feature db i ''chromatic_rhythmic''\<rparr>
                else
                  \<lparr>id' = i,
                   diatonic_feature = fst (convert_feature_to_vector (column_text diatonic)),
                   chromatic_feature = fst (convert_feature_to_vector (column_text chromatic)),
                   rhythmic_feature = fst (convert_feature_to_vector (column_text rhythmic)),
                   diatonic_rhythmic_feature =
                     fst (convert_feature_to_vector (column_text diatonic_rhythmic)),
                   chromatic_rhythmic_feature =
                     fst (convert_feature_to_vector (column_text chromatic_rhythmic))\<rparr>)
              (query_rows db sql))"

section \<open>The pairwise sweep with global alignment\<close>

definition BATCH_SIZE :: nat where
  "BATCH_SIZE = 10000"

text \<open>
  The end of the body of the pair loop, the same in both sweeps: the record is appended to
  the batch, and a full batch is saved and cleared, with \<open>COMMIT\<close> and
  \<open>BEGIN TRANSACTION\<close> after it. The state is the pair of the batch and the database.
\<close>

definition push_back_batch ::
  "bool \<Rightarrow> AlignmentScores \<Rightarrow> AlignmentScores list \<times> database \<Rightarrow> AlignmentScores list \<times> database"
where
  "push_back_batch is_segment scores st =
     (let batch = fst st @ [scores]; db = snd st
      in if length batch \<ge> BATCH_SIZE then
           ([], sqlite3_exec (sqlite3_exec (save_alignments_batch db batch is_segment)
                   ''COMMIT'') ''BEGIN TRANSACTION'')
         else (batch, db))"

text \<open>The record that the body of the pair loop of \<open>process_alignments\<close> builds.\<close>

definition alignment_scores :: "FeatureData \<Rightarrow> FeatureData \<Rightarrow> string \<Rightarrow> AlignmentScores" where
  "alignment_scores di dj lvl =
     \<lparr>id1 = id' di, id2 = id' dj, level = lvl,
      diatonic_score =
        sint (global_alignment (diatonic_feature di) (diatonic_feature dj) 0 1 1),
      chromatic_score =
        sint (global_alignment (chromatic_feature di) (chromatic_feature dj) 0 1 1),
      rhythmic_score =
        sint (global_alignment (rhythmic_feature di) (rhythmic_feature dj) 0 1 1),
      diatonic_rhythmic_score =
        sint (global_alignment (diatonic_rhythmic_feature di) (diatonic_rhythmic_feature dj)
                0 1 1),
      chromatic_rhythmic_score =
        sint (global_alignment (chromatic_rhythmic_feature di) (chromatic_rhythmic_feature dj)
                0 1 1)\<rparr>"

definition process_alignments ::
  "database \<Rightarrow> FeatureData list \<Rightarrow> bool \<Rightarrow> string \<Rightarrow> database"
where
  "process_alignments db data is_segment lvl =
     (let st = fold (\<lambda>i. fold (\<lambda>j. push_back_batch is_segment
                                     (alignment_scores (data ! i) (data ! j) lvl))
                           [Suc i..<length data])
                 [0..<length data] ([], db);
          batch = fst st;
          db' = snd st
      in if batch \<noteq> [] then save_alignments_batch db' batch is_segment else db')"


section \<open>The pairwise sweep over shared segments\<close>

text \<open>
  A \<open>map<int, int>\<close> is a list of pairs of key and value in ascending order of the keys,
  the order in which the map is traversed. \<open>map_increment\<close> is \<open>group_counts[k]++\<close>.
\<close>

type_synonym int_map = "(int \<times> int) list"

fun map_increment :: "int \<Rightarrow> int_map \<Rightarrow> int_map" where
  "map_increment k [] = [(k, 1)]"
| "map_increment k ((k', c) # m) =
     (if k = k' then (k', c + 1) # m
      else if k < k' then (k, 1) # (k', c) # m
      else (k', c) # map_increment k m)"

definition get_group_occurrences :: "database \<Rightarrow> int \<Rightarrow> string \<Rightarrow> int_map" where
  "get_group_occurrences db score_id feature_type =
     (if \<not> prepares db SelectGroupOccurrences then []
      else fold map_increment (group_ids db score_id feature_type) [])"

definition get_max_group_id :: "database \<Rightarrow> string \<Rightarrow> int" where
  "get_max_group_id db feature_type =
     (if \<not> prepares db SelectMaxGroupId then 0
      else case max_group db feature_type of None \<Rightarrow> 0 | Some m \<Rightarrow> m)"

text \<open>
  A \<open>double\<close> is a value of the binary64 format of IEEE 754: a finite number (positive
  zero is \<open>Finite 0\<close>), negative zero, one of the two infinities, or not a number. A
  finite \<open>double\<close> is an integer multiple of a power of two, \<open>pow2 e\<close>, with a multiplier
  below \<open>2 ^ 53\<close> in magnitude and \<open>- 1074 \<le> e\<close>.
\<close>

datatype double = Finite real | NegZero | PlusInfinity | MinusInfinity | NaN

definition pow2 :: "int \<Rightarrow> real" where
  "pow2 e = (if 0 \<le> e then 2 ^ nat e else 1 / 2 ^ nat (- e))"

text \<open>The nearest integer; of two nearest integers the even one.\<close>

definition round_half_even :: "real \<Rightarrow> int" where
  "round_half_even x =
     (let f = \<lfloor>x\<rfloor>
      in if x - of_int f < 1 / 2 then f
         else if 1 / 2 < x - of_int f then f + 1
         else if even f then f else f + 1)"

text \<open>
  The exponent of the last place of the significand of 53 bits for a number of the
  magnitude of \<open>x\<close>; it does not go below that of the subnormal numbers.
\<close>

definition exponent_of :: "real \<Rightarrow> int" where
  "exponent_of x = max (\<lfloor>log 2 \<bar>x\<bar>\<rfloor> - 52) (- 1074)"

text \<open>
  The rounding of every operation, to the nearest \<open>double\<close> with ties to the even
  significand: a result of magnitude \<open>2 ^ 1024\<close> or more after rounding is an infinity,
  and a result that rounds to zero keeps its sign.
\<close>

definition round_to_double :: "real \<Rightarrow> double" where
  "round_to_double x =
     (if x = 0 then Finite 0
      else let e = exponent_of x;
               y = of_int (round_half_even (x / pow2 e)) * pow2 e
           in if pow2 1024 \<le> y then PlusInfinity
              else if y \<le> - pow2 1024 then MinusInfinity
              else if y = 0 then (if x < 0 then NegZero else Finite 0)
              else Finite y)"

fun negative :: "double \<Rightarrow> bool" where
  "negative (Finite x) = (x < 0)"
| "negative NegZero = True"
| "negative MinusInfinity = True"
| "negative PlusInfinity = False"
| "negative NaN = False"

fun is_zero :: "double \<Rightarrow> bool" where
  "is_zero (Finite x) = (x = 0)"
| "is_zero NegZero = True"
| "is_zero PlusInfinity = False"
| "is_zero MinusInfinity = False"
| "is_zero NaN = False"

fun is_infinite :: "double \<Rightarrow> bool" where
  "is_infinite PlusInfinity = True"
| "is_infinite MinusInfinity = True"
| "is_infinite (Finite x) = False"
| "is_infinite NegZero = False"
| "is_infinite NaN = False"

fun value_of :: "double \<Rightarrow> real" where
  "value_of (Finite x) = x"
| "value_of NegZero = 0"
| "value_of PlusInfinity = 0"
| "value_of MinusInfinity = 0"
| "value_of NaN = 0"

fun double_neg :: "double \<Rightarrow> double" where
  "double_neg (Finite x) = (if x = 0 then NegZero else Finite (- x))"
| "double_neg NegZero = Finite 0"
| "double_neg PlusInfinity = MinusInfinity"
| "double_neg MinusInfinity = PlusInfinity"
| "double_neg NaN = NaN"

text \<open>\<open>x + y\<close>, \<open>x - y\<close> and \<open>x * y\<close> on \<open>double\<close>, each rounded once.\<close>

definition double_add :: "double \<Rightarrow> double \<Rightarrow> double" where
  "double_add x y =
     (if x = NaN \<or> y = NaN then NaN
      else if is_infinite x \<and> is_infinite y then (if x = y then x else NaN)
      else if is_infinite x then x
      else if is_infinite y then y
      else if x = NegZero \<and> y = NegZero then NegZero
      else round_to_double (value_of x + value_of y))"

definition double_sub :: "double \<Rightarrow> double \<Rightarrow> double" where
  "double_sub x y = double_add x (double_neg y)"

definition double_mul :: "double \<Rightarrow> double \<Rightarrow> double" where
  "double_mul x y =
     (if x = NaN \<or> y = NaN then NaN
      else if (is_infinite x \<and> is_zero y) \<or> (is_zero x \<and> is_infinite y) then NaN
      else if is_infinite x \<or> is_infinite y then
        (if negative x \<noteq> negative y then MinusInfinity else PlusInfinity)
      else if is_zero x \<or> is_zero y then
        (if negative x \<noteq> negative y then NegZero else Finite 0)
      else round_to_double (value_of x * value_of y))"

text \<open>\<open>sqrt\<close> of the C library, which rounds the root once.\<close>

fun double_sqrt :: "double \<Rightarrow> double" where
  "double_sqrt (Finite x) = (if x < 0 then NaN else round_to_double (sqrt x))"
| "double_sqrt NegZero = NegZero"
| "double_sqrt PlusInfinity = PlusInfinity"
| "double_sqrt MinusInfinity = NaN"
| "double_sqrt NaN = NaN"

text \<open>\<open>static_cast<double>\<close> of an \<open>int\<close>.\<close>

definition static_cast_double :: "int \<Rightarrow> double" where
  "static_cast_double n = round_to_double (of_int n)"

text \<open>\<open>round\<close> of the C library rounds halfway cases away from zero.\<close>

fun c_round :: "double \<Rightarrow> double" where
  "c_round (Finite x) =
     (let r = (if 0 \<le> x then \<lfloor>x + 1 / 2\<rfloor> else \<lceil>x - 1 / 2\<rceil>)
      in if r = 0 \<and> x < 0 then NegZero else Finite (of_int r))"
| "c_round NegZero = NegZero"
| "c_round PlusInfinity = PlusInfinity"
| "c_round MinusInfinity = MinusInfinity"
| "c_round NaN = NaN"

text \<open>
  \<open>static_cast<int>\<close> of a \<open>double\<close> drops the fraction. For a value outside the range
  of \<open>int\<close>, an infinity or not a number, the conversion instruction of x86-64 that the
  cast compiles to gives \<open>INT_MIN\<close>.
\<close>

fun static_cast_int :: "double \<Rightarrow> int" where
  "static_cast_int (Finite x) =
     (let t = (if 0 \<le> x then \<lfloor>x\<rfloor> else \<lceil>x\<rceil>)
      in if INT_MIN \<le> t \<and> t \<le> INT_MAX then t else INT_MIN)"
| "static_cast_int NegZero = 0"
| "static_cast_int PlusInfinity = INT_MIN"
| "static_cast_int MinusInfinity = INT_MIN"
| "static_cast_int NaN = INT_MIN"

text \<open>
  What ends a run of the sweep early: \<open>max_group_id + 1\<close> leaves the range of \<open>int\<close>, the
  constructor of the vector is given a negative size (which it reads as a size beyond
  \<open>max_size()\<close> and answers with \<open>std::length_error\<close>), or a negative group id is used as
  an index into the vector.
\<close>

datatype fault = signed_overflow | length_error | index_out_of_bounds

text \<open>One pass of the loop of \<open>map_to_vector\<close> over the entries of the map.\<close>

definition map_to_vector_body ::
  "int \<Rightarrow> int \<times> int \<Rightarrow> fault + double list \<Rightarrow> fault + double list" where
  "map_to_vector_body max_group_id entry acc =
     (let group_id = fst entry; count = snd entry
      in case acc of
           Inl e \<Rightarrow> Inl e
         | Inr result \<Rightarrow>
             if group_id \<le> max_group_id then
               (if group_id < 0 then Inl index_out_of_bounds
                else Inr (result[nat group_id := static_cast_double count]))
             else Inr result)"

definition map_to_vector :: "int_map \<Rightarrow> int \<Rightarrow> fault + double list" where
  "map_to_vector occurrences max_group_id =
     (if max_group_id = INT_MAX then Inl signed_overflow
      else if max_group_id + 1 < 0 then Inl length_error
      else fold (map_to_vector_body max_group_id) occurrences
             (Inr (replicate (nat (max_group_id + 1)) (Finite 0))))"

text \<open>
  The three loops of \<open>euclidean_distance\<close> and the final \<open>sqrt\<close>, every operation in
  \<open>double\<close>.
\<close>

definition euclidean_distance :: "double list \<Rightarrow> double list \<Rightarrow> double" where
  "euclidean_distance v1 v2 =
     (let n = min (length v1) (length v2);
          sum_sq = fold (\<lambda>i sum_sq. let diff = double_sub (v1 ! i) (v2 ! i)
                                      in double_add sum_sq (double_mul diff diff))
                     [0..<n] (Finite 0);
          sum_sq' =
            (if length v1 > n then
               fold (\<lambda>i sum_sq. double_add sum_sq (double_mul (v1 ! i) (v1 ! i)))
                 [n..<length v1] sum_sq
             else if length v2 > n then
               fold (\<lambda>i sum_sq. double_add sum_sq (double_mul (v2 ! i) (v2 ! i)))
                 [n..<length v2] sum_sq
             else sum_sq)
      in double_sqrt sum_sq')"

text \<open>
  Element \<open>i\<close> of a vector of integers that is read as padded with zeros beyond its end.
\<close>

definition zero_padded :: "int list \<Rightarrow> nat \<Rightarrow> int" where
  "zero_padded v i = (if i < length v then v ! i else 0)"

definition feature_types :: "string list" where
  "feature_types =
     [''diatonic'', ''chromatic'', ''rhythmic'', ''diatonic_rhythmic'', ''chromatic_rhythmic'']"

text \<open>Reading \<open>m[k]\<close> from a \<open>std::map\<close>: a missing key reads as the default value.\<close>

definition max_group_ids_at :: "(string \<rightharpoonup> int) \<Rightarrow> string \<Rightarrow> int" where
  "max_group_ids_at max_group_ids feature_type =
     (case max_group_ids feature_type of None \<Rightarrow> 0 | Some m \<Rightarrow> m)"

definition cached_occurrences_at :: "(int \<times> string \<rightharpoonup> int_map) \<Rightarrow> int \<times> string \<Rightarrow> int_map" where
  "cached_occurrences_at cached_occurrences key =
     (case cached_occurrences key of None \<Rightarrow> [] | Some m \<Rightarrow> m)"

text \<open>
  The two vectors of one pair of scores and one feature type, as the body of the loop over
  the feature types builds them before it calls \<open>euclidean_distance\<close>.
\<close>

definition occurrence_vectors ::
  "(int \<times> string \<rightharpoonup> int_map) \<Rightarrow> (string \<rightharpoonup> int) \<Rightarrow> int \<Rightarrow> int \<Rightarrow> string
     \<Rightarrow> fault + double list \<times> double list"
where
  "occurrence_vectors cached_occurrences max_group_ids score_i score_j feature_type =
     (let max_group_id = max_group_ids_at max_group_ids feature_type
      in case map_to_vector (cached_occurrences_at cached_occurrences (score_i, feature_type))
                max_group_id of
           Inl e \<Rightarrow> Inl e
         | Inr vector1 \<Rightarrow>
             (case map_to_vector
                     (cached_occurrences_at cached_occurrences (score_j, feature_type))
                     max_group_id of
                Inl e \<Rightarrow> Inl e
              | Inr vector2 \<Rightarrow> Inr (vector1, vector2)))"

definition assign_score :: "string \<Rightarrow> int \<Rightarrow> AlignmentScores \<Rightarrow> AlignmentScores" where
  "assign_score feature_type distance_score scores_result =
     (if feature_type = ''diatonic'' then scores_result\<lparr>diatonic_score := distance_score\<rparr>
      else if feature_type = ''chromatic'' then
        scores_result\<lparr>chromatic_score := distance_score\<rparr>
      else if feature_type = ''rhythmic'' then
        scores_result\<lparr>rhythmic_score := distance_score\<rparr>
      else if feature_type = ''diatonic_rhythmic'' then
        scores_result\<lparr>diatonic_rhythmic_score := distance_score\<rparr>
      else if feature_type = ''chromatic_rhythmic'' then
        scores_result\<lparr>chromatic_rhythmic_score := distance_score\<rparr>
      else scores_result)"

text \<open>One pass of the loop over the feature types.\<close>

definition feature_type_body ::
  "(int \<times> string \<rightharpoonup> int_map) \<Rightarrow> (string \<rightharpoonup> int) \<Rightarrow> int \<Rightarrow> int \<Rightarrow> string
     \<Rightarrow> fault + AlignmentScores \<Rightarrow> fault + AlignmentScores"
where
  "feature_type_body cached_occurrences max_group_ids score_i score_j feature_type acc =
     (case acc of
        Inl e \<Rightarrow> Inl e
      | Inr scores_result \<Rightarrow>
          (case occurrence_vectors cached_occurrences max_group_ids score_i score_j
                  feature_type of
             Inl e \<Rightarrow> Inl e
           | Inr (vector1, vector2) \<Rightarrow>
               (let distance = euclidean_distance vector1 vector2;
                    distance_score =
                      static_cast_int (c_round (double_mul distance (Finite 100)))
                in Inr (assign_score feature_type distance_score scores_result))))"

text \<open>
  The record of one pair of scores. The five score fields of the fresh \<open>scores_result\<close>
  are not initialised in the program; the loop assigns each of them.
\<close>

definition shared_scores ::
  "(int \<times> string \<rightharpoonup> int_map) \<Rightarrow> (string \<rightharpoonup> int) \<Rightarrow> int \<Rightarrow> int \<Rightarrow> string
     \<Rightarrow> fault + AlignmentScores"
where
  "shared_scores cached_occurrences max_group_ids score_i score_j lvl =
     fold (feature_type_body cached_occurrences max_group_ids score_i score_j) feature_types
       (Inr \<lparr>id1 = score_i, id2 = score_j, level = lvl,
             diatonic_score = 0, chromatic_score = 0, rhythmic_score = 0,
             diatonic_rhythmic_score = 0, chromatic_rhythmic_score = 0\<rparr>)"

text \<open>The map \<open>max_group_ids\<close> and the cache, as the two loops before the sweep fill them.\<close>

definition build_max_group_ids :: "database \<Rightarrow> (string \<rightharpoonup> int)" where
  "build_max_group_ids db =
     fold (\<lambda>feature_type m. m(feature_type \<mapsto> get_max_group_id db feature_type))
       feature_types Map.empty"

definition build_cached_occurrences :: "database \<Rightarrow> int list \<Rightarrow> (int \<times> string \<rightharpoonup> int_map)" where
  "build_cached_occurrences db scores =
     fold (\<lambda>score_id.
             fold (\<lambda>feature_type c.
                     c((score_id, feature_type) \<mapsto>
                         get_group_occurrences db score_id feature_type))
               feature_types)
       scores Map.empty"

definition process_shared_segments_alignments :: "database \<Rightarrow> string \<Rightarrow> fault + database" where
  "process_shared_segments_alignments db lvl =
     (let scores = get_all_score_ids db;
          max_group_ids = build_max_group_ids db;
          cached_occurrences = build_cached_occurrences db scores;
          st = fold (\<lambda>i. fold (\<lambda>j acc.
                               case acc of
                                 Inl e \<Rightarrow> Inl e
                               | Inr st \<Rightarrow>
                                   (case shared_scores cached_occurrences max_group_ids
                                           (scores ! i) (scores ! j) lvl of
                                      Inl e \<Rightarrow> Inl e
                                    | Inr scores_result \<Rightarrow>
                                        Inr (push_back_batch False scores_result st)))
                           [Suc i..<length scores])
                 [0..<length scores] (Inr ([], db))
      in case st of
           Inl e \<Rightarrow> Inl e
         | Inr (batch, db') \<Rightarrow>
             Inr (if batch \<noteq> [] then save_alignments_batch db' batch False else db'))"

section \<open>The command line\<close>

text \<open>
  How a run of \<open>main\<close> ends: with an exit status and the database it leaves (none when it
  never opened one), or by an exception that nothing catches.
\<close>

datatype outcome = Exit int "database option" | Terminated fault

text \<open>
  The checks at the head of \<open>main\<close>: the exit status 1 of a rejected command line, or the
  pair of \<open>is_segment\<close> and \<open>level\<close>. \<open>argv\<close> holds the program name first.
\<close>

definition parse_arguments :: "string list \<Rightarrow> int + bool \<times> string" where
  "parse_arguments argv =
     (if length argv < 2 then Inl 1
      else let is_segment = (argv ! 1 = ''--type=segment'')
           in if \<not> is_segment then
                (if length argv \<noteq> 4 \<or> argv ! 2 \<noteq> ''--level'' then Inl 1
                 else let lvl = argv ! 3
                      in if lvl \<noteq> ''note'' \<and> lvl \<noteq> ''structure'' \<and> lvl \<noteq> ''shared_segments''
                         then Inl 1
                         else Inr (is_segment, lvl))
              else Inr (is_segment, []))"

definition main :: "string list \<Rightarrow> database option \<Rightarrow> outcome" where
  "main argv opened =
     (case parse_arguments argv of
        Inl status \<Rightarrow> Exit status None
      | Inr (is_segment, lvl) \<Rightarrow>
          (case initialize_database opened of
             None \<Rightarrow> Exit 1 None
           | Some db \<Rightarrow>
               (case (if \<not> is_segment \<and> lvl = ''shared_segments'' then
                        process_shared_segments_alignments db lvl
                      else
                        Inr (process_alignments db
                               (get_feature_data db is_segment (lvl = ''structure''))
                               is_segment lvl)) of
                  Inl e \<Rightarrow> Terminated e
                | Inr db' \<Rightarrow>
                    Exit 0 (Some (sqlite3_exec (sqlite3_exec db' ''COMMIT'')
                                    ''PRAGMA synchronous=FULL'')))))"


section \<open>Notions of the specification about the sweep\<close>

text \<open>
  The unordered pairs of distinct positions of a corpus of \<open>n\<close> entities, each once, with
  the smaller position first.
\<close>

definition pair_indices :: "nat \<Rightarrow> (nat \<times> nat) list" where
  "pair_indices n = concat (map (\<lambda>i. map (Pair i) [Suc i..<n]) [0..<n])"

text \<open>
  The quantized profile distance of two scores for a feature type, read from the database
  without the cache: the Euclidean distance of the two occurrence vectors, times 100,
  rounded.
\<close>

definition ProfileDistance :: "database \<Rightarrow> int \<Rightarrow> int \<Rightarrow> string \<Rightarrow> int" where
  "ProfileDistance db score_i score_j feature_type =
     (case (map_to_vector (get_group_occurrences db score_i feature_type)
              (get_max_group_id db feature_type),
            map_to_vector (get_group_occurrences db score_j feature_type)
              (get_max_group_id db feature_type)) of
        (Inr vector1, Inr vector2) \<Rightarrow>
          static_cast_int (c_round (double_mul (euclidean_distance vector1 vector2) (Finite 100)))
      | _ \<Rightarrow> 0)"

section \<open>A corpus of three scores\<close>

text \<open>
  The scenario of the specification: three scores whose features have the one element 1,
  1 and 2. The first two scores have two segments each in group 0, the third has none. The
  database prepares every statement and takes every insert.
\<close>

definition three_scores :: database where
  "three_scores =
     \<lparr>prepares = (\<lambda>sql. True),
      accepts = (\<lambda>table r. True),
      inserted = [],
      journal = [],
      score_ids = [1, 2, 3],
      score_features =
        [(1, Some ''1'', Some ''1'', Some ''1'', Some ''1'', Some ''1''),
         (2, Some ''1'', Some ''1'', Some ''1'', Some ''1'', Some ''1''),
         (3, Some ''2'', Some ''2'', Some ''2'', Some ''2'', Some ''2'')],
      segment_features = [],
      group_ids = (\<lambda>score_id feature_type. if score_id = 3 then [] else [0, 0]),
      max_group = (\<lambda>feature_type. Some 0)\<rparr>"

section \<open>Properties of the global alignment\<close>

subsection \<open>The rolling columns hold the rows of the grid\<close>

lemma fold_update_upt:
  "k \<le> length xs \<Longrightarrow>
     fold (\<lambda>i col. col[i := f i]) [0..<k] xs = map f [0..<k] @ drop k xs"
proof (induction k)
  case 0
  then show ?case by simp
next
  case (Suc k)
  then have "k < length xs" by simp
  then show ?case using Suc
    by (simp add: list_update_append upd_conv_take_nth_drop Cons_nth_drop_Suc[symmetric])
qed

lemma init_column_eq: "init_column n gp = map (\<lambda>j. of_nat j * gp) [0..<Suc n]"
  unfolding init_column_def
  using fold_update_upt[of "Suc n" "replicate (Suc n) 0" "\<lambda>i. of_nat i * gp"]
  by simp

lemma cell_score_pairScore: "cell_score x y ms mp = pairScore x y ms mp"
  by (cases x; cases y) (simp_all add: cell_score_def)

lemma update_prefix_drop:
  assumes "Suc k < length cur0"
  shows "(map f [0..<Suc k] @ drop (Suc k) cur0)[Suc k := f (Suc k)]
           = map f [0..<Suc (Suc k)] @ drop (Suc (Suc k)) cur0"
proof -
  have "drop (Suc k) cur0 = cur0 ! Suc k # drop (Suc (Suc k)) cur0"
    using assms by (simp add: Cons_nth_drop_Suc)
  then show ?thesis
    by (simp add: list_update_append)
qed

text \<open>
  The invariant of the inner loop: after the pass for column \<open>k\<close> the current column holds
  row \<open>i + 1\<close> of the grid up to \<open>k\<close>, and is untouched beyond.
\<close>

lemma inner_fold:
  assumes prev: "prev = map (cost32 a b ms mp gp i) [0..<Suc (length b)]"
    and len: "length cur0 = Suc (length b)"
    and c0: "cur0 ! 0 = cost32 a b ms mp gp (Suc i) 0"
    and k: "k \<le> length b"
  shows "fold (inner_body a b ms mp gp (Suc i) prev) [1..<Suc k] cur0
           = map (cost32 a b ms mp gp (Suc i)) [0..<Suc k] @ drop (Suc k) cur0"
  using k
proof (induction k)
  case 0
  have "cur0 = cur0 ! 0 # drop 1 cur0"
    using len by (cases cur0) simp_all
  then show ?case using c0 by simp
next
  case (Suc k)
  let ?D = "cost32 a b ms mp gp"
  let ?c = "map (?D (Suc i)) [0..<Suc k] @ drop (Suc k) cur0"
  have IH: "fold (inner_body a b ms mp gp (Suc i) prev) [1..<Suc k] cur0 = ?c"
    using Suc by simp
  have p1: "prev ! k = ?D i k" and p2: "prev ! Suc k = ?D i (Suc k)"
    using Suc.prems prev by (simp_all add: nth_append del: upt_Suc)
  have c1: "?c ! k = ?D (Suc i) k"
    by (simp add: nth_append del: upt_Suc)
  have step: "inner_body a b ms mp gp (Suc i) prev (Suc k) ?c = ?c[Suc k := ?D (Suc i) (Suc k)]"
    unfolding inner_body_def Let_def
    using p1 p2 c1 by (simp add: cell_score_pairScore del: upt_Suc)
  have "fold (inner_body a b ms mp gp (Suc i) prev) [1..<Suc (Suc k)] cur0
          = inner_body a b ms mp gp (Suc i) prev (Suc k) ?c"
    using IH by simp
  also have "\<dots> = ?c[Suc k := ?D (Suc i) (Suc k)]" by (rule step)
  also have "\<dots> = map (?D (Suc i)) [0..<Suc (Suc k)] @ drop (Suc (Suc k)) cur0"
    using Suc.prems len by (intro update_prefix_drop) simp
  finally show ?case .
qed

lemma outer_body_row:
  "outer_body a b ms mp gp (Suc i) (cost32_row a b ms mp gp i, cost32_row a b ms mp gp i)
     = (cost32_row a b ms mp gp (Suc i), cost32_row a b ms mp gp (Suc i))"
proof -
  let ?prev = "cost32_row a b ms mp gp i"
  let ?cur0 = "?prev[0 := of_nat (Suc i) * gp]"
  have "fold (inner_body a b ms mp gp (Suc i) ?prev) [1..<Suc (length b)] ?cur0
          = map (cost32 a b ms mp gp (Suc i)) [0..<Suc (length b)] @ drop (Suc (length b)) ?cur0"
    by (rule inner_fold) (simp_all add: cost32_row_def del: upt_Suc of_nat_Suc)
  also have "\<dots> = cost32_row a b ms mp gp (Suc i)"
    by (simp add: cost32_row_def del: upt_Suc)
  finally show ?thesis
    by (simp add: outer_body_def Let_def del: of_nat_Suc)
qed

lemma outer_fold:
  "fold (outer_body a b ms mp gp) [1..<Suc k]
      (cost32_row a b ms mp gp 0, cost32_row a b ms mp gp 0)
     = (cost32_row a b ms mp gp k, cost32_row a b ms mp gp k)"
  by (induction k) (simp_all add: outer_body_row)

lemma cost32_row_0: "cost32_row a b ms mp gp 0 = init_column (length b) gp"
  by (simp add: cost32_row_def init_column_eq del: upt_Suc)

lemma global_alignment_cost32:
  "global_alignment a b ms mp gp = cost32 a b ms mp gp (length a) (length b)"
proof -
  have "global_alignment a b ms mp gp = cost32_row a b ms mp gp (length a) ! length b"
    unfolding global_alignment_def Let_def
    by (simp only: cost32_row_0[of a b ms mp gp, symmetric] outer_fold snd_conv)
  also have "\<dots> = cost32 a b ms mp gp (length a) (length b)"
    unfolding cost32_row_def by (simp add: nth_append del: upt_Suc)
  finally show ?thesis .
qed

subsection \<open>The grid of the transposed problem\<close>

lemma sint_std_min: "sint (std_min a b) = min (sint a) (sint b)"
  by (auto simp: std_min_def word_sless_alt min_def)

lemma sint_min_of_three: "sint (min_of_three a b c) = min (min (sint a) (sint b)) (sint c)"
  by (simp add: min_of_three_def sint_std_min)

lemma min_of_three_swap: "min_of_three a b c = min_of_three a c b"
proof -
  have "sint (min_of_three a b c) = sint (min_of_three a c b)"
    by (simp add: sint_min_of_three min.assoc min.commute)
  then show ?thesis by (rule signed_word_eqI)
qed

lemma pairScore_sym: "pairScore x y ms mp = pairScore y x ms mp"
  by (cases x; cases y) simp_all

lemma cost32_transpose: "cost32 a b ms mp gp i j = cost32 b a ms mp gp j i"
proof (induction a b ms mp gp i j rule: cost32.induct)
  case (1 a b ms mp gp j)
  then show ?case by (cases j) simp_all
next
  case (2 a b ms mp gp i)
  then show ?case by simp
next
  case (3 a b ms mp gp i j)
  then show ?case
    by (simp add: pairScore_sym[of "a ! i" "b ! j"] min_of_three_swap del: of_nat_Suc)
qed

subsection \<open>Where the arithmetic of \<open>int\<close> is exact\<close>

text \<open>
  A word that stands for an integer within the range of \<open>int\<close> is read back as that
  integer; so are a sum and a product whose exact value is within the range.
\<close>

lemma sint_word_of_int_32:
  "INT_MIN \<le> k \<Longrightarrow> k \<le> INT_MAX \<Longrightarrow> sint (word_of_int k :: int32) = k"
  by (simp add: sint_sbintrunc' signed_take_bit_int_eq_self INT_MIN_def INT_MAX_def)

lemma sint_add_32:
  fixes x y :: int32
  shows "INT_MIN \<le> sint x + sint y \<Longrightarrow> sint x + sint y \<le> INT_MAX
           \<Longrightarrow> sint (x + y) = sint x + sint y"
  by (simp add: sint_word_add signed_take_bit_int_eq_self INT_MIN_def INT_MAX_def)

lemma sint_of_nat_mult_32:
  fixes g :: int32
  assumes "INT_MIN \<le> int n * sint g" and "int n * sint g \<le> INT_MAX"
  shows "sint (of_nat n * g) = int n * sint g"
proof -
  have "of_nat n * g = (word_of_int (int n * sint g) :: int32)"
    by simp
  then show ?thesis
    using sint_word_of_int_32[OF assms] by simp
qed

lemma sint_pairScore:
  "sint (pairScore x y ms mp) = pairScore x y (sint ms) (sint mp)"
  by (cases x; cases y) simp_all

lemma pairScore_abs: "\<bar>ms\<bar> \<le> K \<Longrightarrow> \<bar>mp\<bar> \<le> K \<Longrightarrow> \<bar>pairScore x y ms mp\<bar> \<le> (K::int)"
  by (cases x; cases y) simp_all

lemma cost_abs_bound:
  assumes "\<bar>ms\<bar> \<le> K" and "\<bar>mp\<bar> \<le> K" and "\<bar>gp\<bar> \<le> K"
  shows "\<bar>cost a b ms mp gp i j\<bar> \<le> int (i + j) * K"
  using assms
proof (induction a b ms mp gp i j rule: cost.induct)
  case (1 a b ms mp gp j)
  have "\<bar>int j * gp\<bar> = int j * \<bar>gp\<bar>" by (simp add: abs_mult)
  also have "\<dots> \<le> int j * K" using 1 by (intro mult_left_mono) simp_all
  finally show ?case by simp
next
  case (2 a b ms mp gp i)
  have "\<bar>int (Suc i) * gp\<bar> = int (Suc i) * \<bar>gp\<bar>" by (simp add: abs_mult)
  also have "\<dots> \<le> int (Suc i) * K" using 2 by (intro mult_left_mono) simp_all
  finally show ?case by simp
next
  case (3 a b ms mp gp i j)
  have K0: "0 \<le> K" using 3(4) by linarith
  let ?B = "int (Suc i + Suc j) * K"
  have B: "?B = int (i + j) * K + 2 * K" by (simp add: algebra_simps)
  have B1: "int (i + Suc j) * K = int (i + j) * K + K"
    "int (Suc i + j) * K = int (i + j) * K + K" by (simp_all add: algebra_simps)
  have p: "\<bar>pairScore (a ! i) (b ! j) ms mp\<bar> \<le> K"
    using 3 by (intro pairScore_abs)
  have c1: "\<bar>cost a b ms mp gp i j\<bar> \<le> int (i + j) * K" using 3 by simp
  have c2: "\<bar>cost a b ms mp gp i (Suc j)\<bar> \<le> int (i + j) * K + K" using 3 B1 by simp
  have c3: "\<bar>cost a b ms mp gp (Suc i) j\<bar> \<le> int (i + j) * K + K" using 3 B1 by simp
  have t1: "\<bar>cost a b ms mp gp i j + pairScore (a ! i) (b ! j) ms mp\<bar> \<le> ?B"
    using c1 p K0 unfolding B by linarith
  have t2: "\<bar>cost a b ms mp gp i (Suc j) + gp\<bar> \<le> ?B"
    using c2 3(6) unfolding B by linarith
  have t3: "\<bar>cost a b ms mp gp (Suc i) j + gp\<bar> \<le> ?B"
    using c3 3(6) unfolding B by linarith
  show ?case
    using t1 t2 t3 unfolding cost.simps min_def by (simp only: abs_le_iff split: if_splits) auto
qed

lemma parameter_bound_ge:
  "\<bar>sint ms\<bar> \<le> parameter_bound ms mp gp" "\<bar>sint mp\<bar> \<le> parameter_bound ms mp gp"
  "\<bar>sint gp\<bar> \<le> parameter_bound ms mp gp" "0 \<le> parameter_bound ms mp gp"
  by (simp_all add: parameter_bound_def)

lemma cost_parameter_bound:
  "\<bar>cost a b (sint ms) (sint mp) (sint gp) i j\<bar> \<le> int (i + j) * parameter_bound ms mp gp"
  by (rule cost_abs_bound) (rule parameter_bound_ge)+

lemma sint_cost32:
  assumes "int (i + j) * parameter_bound ms mp gp \<le> INT_MAX"
  shows "sint (cost32 a b ms mp gp i j) = cost a b (sint ms) (sint mp) (sint gp) i j"
  using assms
proof (induction a b ms mp gp i j rule: cost32.induct)
  case (1 a b ms mp gp j)
  have "\<bar>int j * sint gp\<bar> \<le> int (0 + j) * parameter_bound ms mp gp"
    using cost_parameter_bound[of a b ms mp gp 0 j] by simp
  then have "INT_MIN \<le> int j * sint gp" "int j * sint gp \<le> INT_MAX"
    using 1 by (simp_all add: INT_MIN_def INT_MAX_def)
  then show ?case by (simp add: sint_of_nat_mult_32)
next
  case (2 a b ms mp gp i)
  have "\<bar>int (Suc i) * sint gp\<bar> \<le> int (Suc i + 0) * parameter_bound ms mp gp"
    using cost_parameter_bound[of a b ms mp gp "Suc i" 0] by simp
  then have "INT_MIN \<le> int (Suc i) * sint gp" "int (Suc i) * sint gp \<le> INT_MAX"
    using 2 by (simp_all add: INT_MIN_def INT_MAX_def)
  then show ?case
    using sint_of_nat_mult_32[of "Suc i" gp] by (simp del: of_nat_Suc)
next
  case (3 a b ms mp gp i j)
  let ?K = "parameter_bound ms mp gp"
  let ?c = "cost a b (sint ms) (sint mp) (sint gp)"
  have K: "\<bar>sint ms\<bar> \<le> ?K" "\<bar>sint mp\<bar> \<le> ?K" "\<bar>sint gp\<bar> \<le> ?K" "0 \<le> ?K"
    by (rule parameter_bound_ge)+
  have top: "int (i + j) * ?K + 2 * ?K \<le> INT_MAX"
    using 3(4) by (simp add: algebra_simps)
  have r1: "int (i + j) * ?K \<le> INT_MAX" using top K(4) by linarith
  have r2: "int (i + Suc j) * ?K \<le> INT_MAX" "int (Suc i + j) * ?K \<le> INT_MAX"
    using top K(4) by (simp_all add: algebra_simps)
  have e1: "sint (cost32 a b ms mp gp i j) = ?c i j" using 3(1) r1 by simp
  have e2: "sint (cost32 a b ms mp gp i (Suc j)) = ?c i (Suc j)" using 3(2) r2 by simp
  have e3: "sint (cost32 a b ms mp gp (Suc i) j) = ?c (Suc i) j" using 3(3) r2 by simp
  have b1: "\<bar>?c i j\<bar> \<le> int (i + j) * ?K" by (rule cost_parameter_bound)
  have b2: "\<bar>?c i (Suc j)\<bar> \<le> int (i + j) * ?K + ?K"
    using cost_parameter_bound[of a b ms mp gp i "Suc j"] by (simp add: algebra_simps)
  have b3: "\<bar>?c (Suc i) j\<bar> \<le> int (i + j) * ?K + ?K"
    using cost_parameter_bound[of a b ms mp gp "Suc i" j] by (simp add: algebra_simps)
  have p: "\<bar>pairScore (a ! i) (b ! j) (sint ms) (sint mp)\<bar> \<le> ?K"
    using K by (intro pairScore_abs)
  have s1: "sint (cost32 a b ms mp gp i j + pairScore (a ! i) (b ! j) ms mp)
              = ?c i j + pairScore (a ! i) (b ! j) (sint ms) (sint mp)"
    using b1 p top K(4)
    by (subst sint_add_32) (simp_all add: e1 sint_pairScore INT_MIN_def INT_MAX_def)
  have s2: "sint (cost32 a b ms mp gp i (Suc j) + gp) = ?c i (Suc j) + sint gp"
    using b2 K(3) top
    by (subst sint_add_32) (simp_all add: e2 INT_MIN_def INT_MAX_def)
  have s3: "sint (cost32 a b ms mp gp (Suc i) j + gp) = ?c (Suc i) j + sint gp"
    using b3 K(3) top
    by (subst sint_add_32) (simp_all add: e3 INT_MIN_def INT_MAX_def)
  show ?case
    by (simp add: sint_min_of_three s1 s2 s3 min.assoc)
qed

lemma sint_global_alignment:
  assumes "within_int a b ms mp gp"
  shows "sint (global_alignment a b ms mp gp)
           = SequenceDistance a b (sint ms) (sint mp) (sint gp)"
  unfolding global_alignment_cost32 SequenceDistance_def
  using assms by (intro sint_cost32) (simp add: within_int_def)

lemma cost_nonneg:
  "0 \<le> ms \<Longrightarrow> 0 \<le> mp \<Longrightarrow> 0 \<le> gp \<Longrightarrow> 0 \<le> cost a b ms mp gp i j"
proof (induction a b ms mp gp i j rule: cost.induct)
  case (3 a b ms mp gp i j)
  have "0 \<le> pairScore (a ! i) (b ! j) ms mp"
    using 3 by (cases "a ! i"; cases "b ! j") simp_all
  then show ?case using 3 by simp
qed simp_all

text \<open>
  With the parameters 0, 1 and 1 that the driver passes, cell \<open>(i, j)\<close> of the grid lies
  between 0 and \<open>i + j\<close>, and the program computes it exactly for two sequences whose
  lengths add up to at most \<open>INT_MAX\<close>.
\<close>

lemma cost_column_0: "cost a b ms mp gp i 0 = int i * gp"
  by (cases i) simp_all

lemma cost32_column_0: "cost32 a b ms mp gp i 0 = of_nat i * gp"
  by (cases i) simp_all

lemma cost_driver_bounds:
  "0 \<le> cost a b 0 1 1 i j \<and> cost a b 0 1 1 i j \<le> int (i + j)"
proof (induction a b "0::int" "1::int" "1::int" i j rule: cost.induct)
  case (1 a b j)
  then show ?case by simp
next
  case (2 a b i)
  then show ?case by simp
next
  case (3 a b i j)
  have "0 \<le> (pairScore (a ! i) (b ! j) 0 1 :: int)"
    by (cases "a ! i"; cases "b ! j") simp_all
  then show ?case using 3 by (auto simp: min_def)
qed

lemma within_int_driver:
  "int (length a + length b) \<le> INT_MAX \<Longrightarrow> within_int a b 0 1 1"
  by (simp add: within_int_def parameter_bound_def)

lemma global_alignment_driver:
  assumes "int (length a + length b) \<le> INT_MAX"
  shows "sint (global_alignment a b 0 1 1) = cost a b 0 1 1 (length a) (length b)"
  using sint_global_alignment[OF within_int_driver[OF assms]]
  by (simp add: SequenceDistance_def)

subsection \<open>The statements about \<open>global_alignment\<close>\<close>

text \<open>
  C3: \<open>global_alignment\<close> is symmetric. For all sequences \<open>A\<close> and \<open>B\<close> of optional integers
  and all match, mismatch and gap parameters, with the one gap penalty applied to both
  sequences, the distance of \<open>A\<close> and \<open>B\<close> equals the distance of \<open>B\<close> and \<open>A\<close>.
\<close>

theorem global_alignment_symmetric:
  "global_alignment A B match_score mismatch_penalty gap_penalty
     = global_alignment B A match_score mismatch_penalty gap_penalty"
  unfolding global_alignment_cost32 by (rule cost32_transpose)

text \<open>
  C4: the implementation with two rolling columns computes the value of the classic
  dynamic programme over the full grid of \<open>(m + 1) \<times> (n + 1)\<close> cells: row and column 0
  hold the index times the gap penalty, cell \<open>(i, j)\<close> is the minimum of the diagonal
  neighbour plus \<open>pairScore\<close>, the upper neighbour plus the gap penalty and the left
  neighbour plus the gap penalty, and the result is the bottom-right cell. For all
  inputs the two agree when the grid is filled with the arithmetic of \<open>int\<close>; where
  the lengths and the parameters keep that arithmetic within the range of \<open>int\<close>, the
  result is the bottom-right cell of the grid over the integers.
\<close>

theorem global_alignment_refines_full_matrix:
  "global_alignment a b match_score mismatch_penalty gap_penalty
     = SequenceDistance32 a b match_score mismatch_penalty gap_penalty
   \<and> (within_int a b match_score mismatch_penalty gap_penalty
        \<longrightarrow> sint (global_alignment a b match_score mismatch_penalty gap_penalty)
              = SequenceDistance a b (sint match_score) (sint mismatch_penalty)
                  (sint gap_penalty))"
  by (simp add: SequenceDistance32_def global_alignment_cost32[symmetric] sint_global_alignment)

text \<open>Two sequences of four and three notes, with a negative match score and gap penalty.\<close>

theorem global_alignment_refines_full_matrix_witness:
  "within_int [Some 1, Some 2, Some 3, Some 4] [Some 2, Some 3, Some 5] (- 3) 2 (- 1)
   \<and> sint (global_alignment [Some 1, Some 2, Some 3, Some 4] [Some 2, Some 3, Some 5] (- 3) 2 (- 1))
       = SequenceDistance [Some 1, Some 2, Some 3, Some 4] [Some 2, Some 3, Some 5] (- 3) 2 (- 1)
   \<and> SequenceDistance [Some 1, Some 2, Some 3, Some 4] [Some 2, Some 3, Some 5] (- 3) 2 (- 1) = - 9"
proof -
  let ?a = "[Some 1, Some 2, Some 3, Some (4::int)]" and ?b = "[Some 2, Some 3, Some (5::int)]"
  have w: "within_int ?a ?b (- 3) 2 (- 1)"
    by (simp add: within_int_def parameter_bound_def INT_MAX_def)
  have "sint (global_alignment ?a ?b (- 3) 2 (- 1))
          = SequenceDistance ?a ?b (sint (- 3 :: int32)) (sint (2 :: int32)) (sint (- 1 :: int32))"
    using global_alignment_refines_full_matrix[of ?a ?b "- 3" 2 "- 1"] w by blast
  moreover have "SequenceDistance ?a ?b (- 3) 2 (- 1) = - 9"
    by (simp add: SequenceDistance_def eval_nat_numeral)
  ultimately show ?thesis using w by simp
qed

text \<open>
  C5: the boundary of the empty sequence. Against an empty first sequence a sequence of
  length \<open>L\<close> has distance \<open>L\<close> times the gap penalty, the same holds for an empty second
  sequence, and two empty sequences have distance 0. The product is the one the program
  computes on \<open>int\<close>; it is the product of the integers \<open>L\<close> and \<open>gap_penalty\<close> whenever
  that lies within the range of \<open>int\<close>.
\<close>

theorem global_alignment_empty:
  "global_alignment [] B match_score mismatch_penalty gap_penalty
     = of_nat (length B) * gap_penalty
   \<and> global_alignment A [] match_score mismatch_penalty gap_penalty
     = of_nat (length A) * gap_penalty
   \<and> global_alignment [] [] match_score mismatch_penalty gap_penalty = 0
   \<and> (INT_MIN \<le> int (length B) * sint gap_penalty
        \<and> int (length B) * sint gap_penalty \<le> INT_MAX
      \<longrightarrow> sint (global_alignment [] B match_score mismatch_penalty gap_penalty)
            = int (length B) * sint gap_penalty)
   \<and> (INT_MIN \<le> int (length A) * sint gap_penalty
        \<and> int (length A) * sint gap_penalty \<le> INT_MAX
      \<longrightarrow> sint (global_alignment A [] match_score mismatch_penalty gap_penalty)
            = int (length A) * sint gap_penalty)"
  by (simp add: global_alignment_cost32 cost32_column_0 sint_of_nat_mult_32)

text \<open>A sequence of three elements and the gap penalty 7.\<close>

theorem global_alignment_empty_witness:
  "INT_MIN \<le> int (length [Some 1, None, Some (2::int)]) * sint (7 :: int32)
   \<and> int (length [Some 1, None, Some (2::int)]) * sint (7 :: int32) \<le> INT_MAX
   \<and> sint (global_alignment [] [Some 1, None, Some 2] 0 1 7) = 21
   \<and> sint (global_alignment [Some 1, None, Some 2] [] 0 1 7) = 21"
proof -
  have r: "INT_MIN \<le> int (length [Some 1, None, Some (2::int)]) * sint (7 :: int32)
      \<and> int (length [Some 1, None, Some (2::int)]) * sint (7 :: int32) \<le> INT_MAX"
    by (simp add: INT_MIN_def INT_MAX_def)
  note inst = global_alignment_empty[of "[Some 1, None, Some 2]" 0 1 7 "[Some 1, None, Some 2]"]
  from inst r have "sint (global_alignment [] [Some 1, None, Some 2] 0 1 7)
      = int (length [Some 1, None, Some (2::int)]) * sint (7 :: int32)"
    by blast
  moreover from inst r have "sint (global_alignment [Some 1, None, Some 2] [] 0 1 7)
      = int (length [Some 1, None, Some (2::int)]) * sint (7 :: int32)"
    by blast
  ultimately show ?thesis using r by simp
qed

text \<open>
  C7, as stated: for every pair of sequences and every choice of signed match score,
  mismatch penalty and gap penalty the result is non-negative. It fails as soon as one of
  the three parameters is negative: a gap against the empty sequence costs the negative
  gap penalty, a matching pair the negative match score, a mismatching pair the negative
  mismatch penalty. It also fails for non-negative parameters so large that a product or
  a sum leaves the range of \<open>int\<close>: twice \<open>INT_MAX\<close> is read as \<open>-2\<close>.
\<close>

theorem global_alignment_negative_counterexample:
  "\<not> 0 \<le> sint (global_alignment [] [Some 1] 0 1 (- 1))
   \<and> \<not> 0 \<le> sint (global_alignment [Some 1] [Some 1] (- 1) 1 1)
   \<and> \<not> 0 \<le> sint (global_alignment [Some 1] [Some 2] 0 (- 1) 1)
   \<and> \<not> 0 \<le> sint (global_alignment [] [Some 1, Some 1] 0 1 2147483647)
   \<and> \<not> 0 \<le> sint (global_alignment [Some 1] [Some 1] 2147483647 0 2147483647)"
  by (simp add: global_alignment_cost32 min_of_three_def std_min_def word_sless_alt)

text \<open>
  C7, amended: for every pair of sequences and every choice of non-negative match score,
  mismatch penalty and gap penalty such that the sum of the two lengths times the largest
  of the three parameters is at most \<open>INT_MAX\<close> (the driver passes 0, 1 and 1), the
  result is non-negative.
\<close>

theorem global_alignment_nonneg:
  assumes "0 \<le> sint match_score" and "0 \<le> sint mismatch_penalty" and "0 \<le> sint gap_penalty"
    and "within_int A B match_score mismatch_penalty gap_penalty"
  shows "0 \<le> sint (global_alignment A B match_score mismatch_penalty gap_penalty)"
  unfolding sint_global_alignment[OF assms(4)] SequenceDistance_def
  using assms(1-3) by (rule cost_nonneg)

text \<open>The driver's parameters on a sequence with a rest: one mismatch.\<close>

theorem global_alignment_nonneg_witness:
  "0 \<le> sint (0 :: int32) \<and> 0 \<le> sint (1 :: int32)
   \<and> within_int [None, Some 3] [Some 5, Some 3] 0 1 1
   \<and> 0 \<le> sint (global_alignment [None, Some 3] [Some 5, Some 3] 0 1 1)
   \<and> sint (global_alignment [None, Some 3] [Some 5, Some 3] 0 1 1) = 1"
proof -
  have w: "within_int [None, Some 3] [Some 5, Some 3] 0 1 1"
    by (simp add: within_int_def parameter_bound_def INT_MAX_def)
  have "0 \<le> sint (global_alignment [None, Some 3] [Some 5, Some 3] 0 1 1)"
    by (rule global_alignment_nonneg) (simp_all add: w)
  moreover have "sint (global_alignment [None, Some 3] [Some 5, Some 3] 0 1 1) = 1"
    by (simp add: global_alignment_driver INT_MAX_def)
  ultimately show ?thesis using w by simp
qed

section \<open>Properties of the parser of features\<close>

text \<open>The loop handles the tokens one after the other.\<close>

lemma convert_loop_fold: "convert_loop ss st = fold convert_body (tokens ss (CHR '';'')) st"
proof (induction ss st rule: convert_loop.induct)
  case (1 ss st)
  show ?case
  proof (cases "getline ss (CHR '';'')")
    case None
    then show ?thesis
      by (simp add: convert_loop.simps[of ss] tokens.simps[of ss])
  next
    case (Some p)
    obtain v ss' where p: "p = (v, ss')" by (cases p)
    with Some 1 show ?thesis
      by (simp add: convert_loop.simps[of ss] tokens.simps[of ss])
  qed
qed

lemma fold_convert_body_fst:
  "fst (fold convert_body ts st)
     = fst st @ map (\<lambda>t. if t = ''r'' then None
                          else case stoi t of Inl e \<Rightarrow> None | Inr v \<Rightarrow> Some v)
                 (filter (\<lambda>t. t \<noteq> []) ts)"
  by (induction ts arbitrary: st) (simp_all add: convert_body_def Let_def split: sum.splits)

lemma fold_convert_body_snd:
  "snd (fold convert_body ts st)
     = snd st @ map (\<lambda>t. case stoi t of Inl e \<Rightarrow> diagnostic e t | Inr v \<Rightarrow> [])
                 (filter (\<lambda>t. t \<noteq> ''r'' \<and> isl (stoi t)) (filter (\<lambda>t. t \<noteq> []) ts))"
  by (induction ts arbitrary: st) (simp_all add: convert_body_def Let_def split: sum.splits)

lemma convert_feature_to_vector_fst:
  "fst (convert_feature_to_vector feature)
     = map (\<lambda>t. if t = ''r'' then None else case stoi t of Inl e \<Rightarrow> None | Inr v \<Rightarrow> Some v)
         (feature_tokens feature)"
  by (simp add: convert_feature_to_vector_def convert_loop_fold fold_convert_body_fst
      feature_tokens_def)

lemma convert_feature_to_vector_snd:
  "snd (convert_feature_to_vector feature)
     = map (\<lambda>t. case stoi t of Inl e \<Rightarrow> diagnostic e t | Inr v \<Rightarrow> [])
         (filter (\<lambda>t. t \<noteq> ''r'' \<and> isl (stoi t)) (feature_tokens feature))"
  by (simp add: convert_feature_to_vector_def convert_loop_fold fold_convert_body_snd
      feature_tokens_def)

text \<open>
  C8: \<open>convert_feature_to_vector\<close> returns for every input string. The result has one
  element for each non-empty token between the delimiters. A token that is the rest token
  \<open>r\<close>, or on which \<open>stoi\<close> raises \<open>invalid_argument\<close> or \<open>out_of_range\<close>, becomes
  \<open>nullopt\<close>; every other token becomes its number. The lines written to \<open>cerr\<close> are
  exactly the diagnostics of the tokens other than \<open>r\<close> on which \<open>stoi\<close> raises, in
  order. The empty string gives the empty sequence.
\<close>

theorem convert_feature_to_vector_tolerant:
  "convert_feature_to_vector [] = ([], [])
   \<and> length (fst (convert_feature_to_vector feature)) = length (feature_tokens feature)
   \<and> (\<forall>k < length (feature_tokens feature).
        (feature_tokens feature ! k = ''r''
           \<longrightarrow> fst (convert_feature_to_vector feature) ! k = None)
      \<and> (\<forall>e. stoi (feature_tokens feature ! k) = Inl e
           \<longrightarrow> fst (convert_feature_to_vector feature) ! k = None)
      \<and> (\<forall>e. feature_tokens feature ! k \<noteq> ''r'' \<and> stoi (feature_tokens feature ! k) = Inl e
           \<longrightarrow> diagnostic e (feature_tokens feature ! k)
                 \<in> set (snd (convert_feature_to_vector feature)))
      \<and> (\<forall>v. feature_tokens feature ! k \<noteq> ''r'' \<and> stoi (feature_tokens feature ! k) = Inr v
           \<longrightarrow> fst (convert_feature_to_vector feature) ! k = Some v))
   \<and> snd (convert_feature_to_vector feature)
       = map (\<lambda>t. case stoi t of Inl e \<Rightarrow> diagnostic e t | Inr v \<Rightarrow> [])
           (filter (\<lambda>t. t \<noteq> ''r'' \<and> isl (stoi t)) (feature_tokens feature))"
proof (intro conjI allI impI)
  show "convert_feature_to_vector [] = ([], [])"
    by (simp add: convert_feature_to_vector_def convert_loop.simps[of "[]"] getline_def)
  show "length (fst (convert_feature_to_vector feature)) = length (feature_tokens feature)"
    by (simp add: convert_feature_to_vector_fst)
  show "snd (convert_feature_to_vector feature)
       = map (\<lambda>t. case stoi t of Inl e \<Rightarrow> diagnostic e t | Inr v \<Rightarrow> [])
           (filter (\<lambda>t. t \<noteq> ''r'' \<and> isl (stoi t)) (feature_tokens feature))"
    by (rule convert_feature_to_vector_snd)
next
  fix k assume "k < length (feature_tokens feature)" "feature_tokens feature ! k = ''r''"
  then show "fst (convert_feature_to_vector feature) ! k = None"
    by (simp add: convert_feature_to_vector_fst)
next
  fix k e assume "k < length (feature_tokens feature)" "stoi (feature_tokens feature ! k) = Inl e"
  then show "fst (convert_feature_to_vector feature) ! k = None"
    by (simp add: convert_feature_to_vector_fst)
next
  fix k v
  assume "k < length (feature_tokens feature)"
    "feature_tokens feature ! k \<noteq> ''r'' \<and> stoi (feature_tokens feature ! k) = Inr v"
  then show "fst (convert_feature_to_vector feature) ! k = Some v"
    by (simp add: convert_feature_to_vector_fst)
next
  fix k e
  assume k: "k < length (feature_tokens feature)"
    and e: "feature_tokens feature ! k \<noteq> ''r'' \<and> stoi (feature_tokens feature ! k) = Inl e"
  let ?t = "feature_tokens feature ! k"
  have "?t \<in> set (filter (\<lambda>t. t \<noteq> ''r'' \<and> isl (stoi t)) (feature_tokens feature))"
    using k e by simp
  then have "(\<lambda>t. case stoi t of Inl e \<Rightarrow> diagnostic e t | Inr v \<Rightarrow> []) ?t
               \<in> set (snd (convert_feature_to_vector feature))"
    unfolding convert_feature_to_vector_snd set_map by (rule imageI)
  then show "diagnostic e ?t \<in> set (snd (convert_feature_to_vector feature))"
    using e by simp
qed



text \<open>
  A feature with a number, a rest, a token that is no number, an empty token, a number
  beyond the range of \<open>int\<close> and a negative number.
\<close>

theorem convert_feature_to_vector_tolerant_witness:
  "feature_tokens ''1;r;x;;99999999999;-4'' = [''1'', ''r'', ''x'', ''99999999999'', ''-4'']
   \<and> stoi ''x'' = Inl invalid_argument
   \<and> stoi ''99999999999'' = Inl out_of_range
   \<and> fst (convert_feature_to_vector ''1;r;x;;99999999999;-4'') ! 1 = None
   \<and> fst (convert_feature_to_vector ''1;r;x;;99999999999;-4'') ! 2 = None
   \<and> fst (convert_feature_to_vector ''1;r;x;;99999999999;-4'') ! 3 = None
   \<and> fst (convert_feature_to_vector ''1;r;x;;99999999999;-4'') ! 4 = Some (- 4)
   \<and> snd (convert_feature_to_vector ''1;r;x;;99999999999;-4'')
       = [''Invalid value in feature: x'', ''Value out of range: 99999999999'']"
proof -
  let ?f = "''1;r;x;;99999999999;-4''"
  have t: "feature_tokens ?f = [''1'', ''r'', ''x'', ''99999999999'', ''-4'']"
    by code_simp
  have s1: "stoi ''x'' = Inl invalid_argument" by code_simp
  have s2: "stoi ''99999999999'' = Inl out_of_range" by code_simp
  have s3: "stoi ''-4'' = Inr (- 4)" by code_simp
  have s4: "stoi ''1'' = Inr 1" by code_simp
  have s5: "stoi ''r'' = Inl invalid_argument" by code_simp
  note inst = convert_feature_to_vector_tolerant[of ?f, unfolded t]
  from inst have a: "\<forall>k<5. ([''1'', ''r'', ''x'', ''99999999999'', ''-4''] ! k = ''r''
           \<longrightarrow> fst (convert_feature_to_vector ?f) ! k = None)
      \<and> (\<forall>e. stoi ([''1'', ''r'', ''x'', ''99999999999'', ''-4''] ! k) = Inl e
           \<longrightarrow> fst (convert_feature_to_vector ?f) ! k = None)
      \<and> (\<forall>v. [''1'', ''r'', ''x'', ''99999999999'', ''-4''] ! k \<noteq> ''r'' \<and> stoi ([''1'', ''r'', ''x'', ''99999999999'', ''-4''] ! k) = Inr v
           \<longrightarrow> fst (convert_feature_to_vector ?f) ! k = Some v)"
    by simp
  have r1: "fst (convert_feature_to_vector ?f) ! 1 = None"
    using a[rule_format, of 1] by simp
  have r2: "fst (convert_feature_to_vector ?f) ! 2 = None"
    using a[rule_format, of 2] s1 by simp
  have r3: "fst (convert_feature_to_vector ?f) ! 3 = None"
    using a[rule_format, of 3] s2 by simp
  have r4: "fst (convert_feature_to_vector ?f) ! 4 = Some (- 4)"
    using a[rule_format, of 4] s3 by simp
  have d: "snd (convert_feature_to_vector ?f)
       = [''Invalid value in feature: x'', ''Value out of range: 99999999999'']"
    using inst s1 s2 s3 s4 s5 by simp
  show ?thesis using t s1 s2 r1 r2 r3 r4 d by simp
qed

section \<open>Properties of the arithmetic of \<open>double\<close>\<close>

subsection \<open>Integers below \<open>2 ^ 53\<close> and powers of two are held exactly\<close>

lemma pow2_powr: "pow2 e = 2 powr (of_int e)"
  by (simp add: pow2_def powr_int)

lemma pow2_pos: "0 < pow2 e"
  by (simp add: pow2_powr)

lemma pow2_add: "pow2 (a + b) = pow2 a * pow2 b"
  by (simp add: pow2_powr powr_add)

lemma pow2_mono: "a \<le> b \<Longrightarrow> pow2 a \<le> pow2 b"
  by (simp add: pow2_powr)

lemma round_half_even_of_int: "round_half_even (of_int k) = k"
  by (simp add: round_half_even_def)

lemma round_half_even_ge_floor: "\<lfloor>x\<rfloor> \<le> round_half_even x"
  by (simp add: round_half_even_def Let_def)

lemma floor_log2_int:
  assumes "n \<noteq> 0" and "\<bar>n\<bar> < 2 ^ 53"
  shows "0 \<le> \<lfloor>log 2 \<bar>real_of_int n\<bar>\<rfloor> \<and> \<lfloor>log 2 \<bar>real_of_int n\<bar>\<rfloor> \<le> 52"
proof -
  have 1: "1 \<le> \<bar>real_of_int n\<bar>" using assms(1) by (simp flip: of_int_abs)
  have "\<bar>real_of_int n\<bar> < 2 ^ 53"
    using assms(2) by (metis of_int_abs of_int_less_numeral_power_cancel_iff)
  then have 2: "\<bar>real_of_int n\<bar> < 2 powr 53"
    by (simp add: powr_realpow[of 2 53, simplified])
  have "0 \<le> log 2 \<bar>real_of_int n\<bar>" using 1 by simp
  moreover have "log 2 \<bar>real_of_int n\<bar> < 53"
    using 1 2 by (simp add: log_less_iff)
  ultimately show ?thesis by (simp add: floor_less_iff le_floor_iff)
qed

lemma round_to_double_of_int:
  assumes "\<bar>n\<bar> < 2 ^ 53"
  shows "round_to_double (of_int n) = Finite (of_int n)"
proof (cases "n = 0")
  case True
  then show ?thesis by (simp add: round_to_double_def)
next
  case False
  define p where "p = \<lfloor>log 2 \<bar>real_of_int n\<bar>\<rfloor>"
  have p: "0 \<le> p" "p \<le> 52" using floor_log2_int[OF False assms] by (simp_all add: p_def)
  have e: "exponent_of (of_int n) = p - 52"
    using p by (simp add: exponent_of_def p_def)
  have pw: "pow2 (p - 52) = 1 / 2 ^ nat (52 - p)"
    using p by (cases "p = 52") (simp_all add: pow2_def)
  have q: "real_of_int n / pow2 (p - 52) = of_int (n * 2 ^ nat (52 - p))"
    by (simp add: pw)
  have y: "of_int (round_half_even (real_of_int n / pow2 (p - 52))) * pow2 (p - 52) = of_int n"
    unfolding q round_half_even_of_int by (simp add: pw)
  have "\<bar>real_of_int n\<bar> < 2 ^ 53"
    using assms by (metis of_int_abs of_int_less_numeral_power_cancel_iff)
  also have "(2::real) ^ 53 \<le> 2 ^ 1024" by (rule power_increasing) simp_all
  finally have b: "\<bar>real_of_int n\<bar> < pow2 1024" by (simp add: pow2_def)
  show ?thesis
    using False b by (simp add: round_to_double_def e y Let_def abs_less_iff)
qed

lemma round_to_double_overflow:
  assumes "pow2 1024 \<le> x"
  shows "round_to_double x = PlusInfinity"
proof -
  have x0: "0 < x" using assms pow2_pos[of 1024] by linarith
  define p where "p = \<lfloor>log 2 \<bar>x\<bar>\<rfloor>"
  have px: "2 powr (of_int p) \<le> x" "x < 2 powr (of_int (p + 1))"
    using floor_log_eq_powr_iff[of x 2 p] x0 by (simp_all add: p_def)
  have "(2::real) powr (real_of_int 1024) \<le> x"
    using assms unfolding pow2_powr .
  then have "(2::real) powr (real_of_int 1024) < 2 powr (real_of_int (p + 1))"
    using px(2) by (rule le_less_trans)
  then have "real_of_int 1024 < real_of_int (p + 1)"
    by (rule powr_less_cancel) simp
  then have p1024: "1024 \<le> p" by linarith
  have e: "exponent_of x = p - 52"
    using p1024 by (simp add: exponent_of_def p_def)
  have split: "pow2 52 * pow2 (p - 52) = pow2 p" by (simp flip: pow2_add)
  have p52: "pow2 52 = of_int (2 ^ 52)" by (simp add: pow2_def)
  from split have "pow2 52 \<le> x / pow2 (p - 52)"
    using px(1) pow2_pos[of "p - 52"] by (simp add: pow2_powr[of p] pos_le_divide_eq)
  moreover note p52
  ultimately have "2 ^ 52 \<le> \<lfloor>x / pow2 (p - 52)\<rfloor>" by (simp add: le_floor_iff)
  then have m: "2 ^ 52 \<le> round_half_even (x / pow2 (p - 52))"
    using round_half_even_ge_floor[of "x / pow2 (p - 52)"] by linarith
  have "pow2 1024 \<le> pow2 p" using p1024 by (rule pow2_mono)
  also have "pow2 p = of_int (2 ^ 52) * pow2 (p - 52)"
    unfolding p52[symmetric] split ..
  also have "\<dots> \<le> of_int (round_half_even (x / pow2 (p - 52))) * pow2 (p - 52)"
    using m pow2_pos[of "p - 52"] by (intro mult_right_mono) (simp_all add: less_imp_le)
  finally show ?thesis
    using x0 by (simp add: round_to_double_def e Let_def)
qed

lemma floor_log_pow2: "\<lfloor>log 2 \<bar>pow2 e\<bar>\<rfloor> = e"
proof -
  have "\<bar>pow2 e\<bar> = 2 powr (of_int e)" using pow2_pos[of e] by (simp add: pow2_powr)
  then show ?thesis by simp
qed

lemma pow2_diff: "pow2 a / pow2 b = pow2 (a - b)"
  by (simp add: pow2_powr powr_diff)

lemma pow2_less: "a < b \<Longrightarrow> pow2 a < pow2 b"
  by (simp add: pow2_powr)

lemma round_to_double_pow2:
  assumes "- 1022 \<le> e" and "e \<le> 1023"
  shows "round_to_double (pow2 e) = Finite (pow2 e)"
proof -
  have e: "exponent_of (pow2 e) = e - 52"
    using assms(1) by (simp add: exponent_of_def floor_log_pow2)
  have "pow2 e / pow2 (e - 52) = of_int (2 ^ 52)"
    unfolding pow2_diff by (simp add: pow2_def)
  then have r: "round_half_even (pow2 e / pow2 (e - 52)) = 2 ^ 52"
    by (simp only: round_half_even_of_int)
  have "of_int (2 ^ 52) * pow2 (e - 52) = pow2 52 * pow2 (e - 52)"
    by (simp add: pow2_def)
  also have "\<dots> = pow2 e" by (simp flip: pow2_add)
  finally have y: "of_int (2 ^ 52) * pow2 (e - 52) = pow2 e" .
  have lt: "pow2 e < pow2 1024" using assms(2) by (intro pow2_less) simp
  have pos: "0 < pow2 e" by (rule pow2_pos)
  show ?thesis
    unfolding round_to_double_def Let_def e r y using lt pos by simp
qed

lemma round_to_double_underflow:
  assumes "e < - 1075"
  shows "round_to_double (pow2 e) = Finite 0"
proof -
  have ex: "exponent_of (pow2 e) = - 1074"
    using assms by (simp add: exponent_of_def floor_log_pow2)
  have q: "pow2 e / pow2 (- 1074) = pow2 (e + 1074)"
    unfolding pow2_diff by simp
  have "pow2 (e + 1074) < pow2 (- 1)" using assms by (intro pow2_less) simp
  then have small: "pow2 (e + 1074) < 1 / 2" by (simp add: pow2_def)
  have pos: "0 < pow2 (e + 1074)" by (rule pow2_pos)
  have fl: "\<lfloor>pow2 (e + 1074)\<rfloor> = 0"
    using small pos by (simp add: floor_eq_iff)
  have r: "round_half_even (pow2 e / pow2 (- 1074)) = 0"
    unfolding q round_half_even_def Let_def fl using small by simp
  show ?thesis
    unfolding round_to_double_def Let_def ex r using pow2_pos[of e] pow2_pos[of 1024] by simp
qed


subsection \<open>A rounded result is a rational number\<close>

lemma round_to_double_rational:
  assumes "round_to_double x = Finite y"
  shows "y \<in> \<rat>"
proof -
  have p: "pow2 e \<in> \<rat>" for e by (simp add: pow2_def)
  have "y = 0 \<or> y = of_int (round_half_even (x / pow2 (exponent_of x))) * pow2 (exponent_of x)"
    using assms by (auto simp: round_to_double_def Let_def split: if_splits)
  then show ?thesis using p by auto
qed


lemma sqrt_2_not_rat: "sqrt 2 \<notin> \<rat>"
proof
  assume "sqrt 2 \<in> \<rat>"
  then obtain m n :: nat where n: "n \<noteq> 0" and eq: "\<bar>sqrt 2\<bar> = real m / real n"
    and cop: "coprime m n"
    by (rule Rats_abs_nat_div_natE)
  have "(sqrt 2)\<^sup>2 = (real m / real n)\<^sup>2" using eq by simp
  then have "2 * (real n)\<^sup>2 = (real m)\<^sup>2"
    using n by (simp add: power_divide field_simps)
  then have "real (2 * n\<^sup>2) = real (m\<^sup>2)" by simp
  then have e: "2 * n\<^sup>2 = m\<^sup>2" by (simp only: of_nat_eq_iff)
  then have "even (m\<^sup>2)" by (metis dvd_triv_left)
  then have em: "even m" by simp
  then obtain k where k: "m = 2 * k" by (elim evenE)
  with e have "n\<^sup>2 = 2 * k\<^sup>2" by (simp add: power2_eq_square)
  then have "even (n\<^sup>2)" by simp
  then have "even n" by simp
  with em have "2 dvd gcd m n" by simp
  with cop show False by simp
qed


subsection \<open>Sums, differences and products of integers\<close>

lemma static_cast_double_exact: "\<bar>n\<bar> < 2 ^ 53 \<Longrightarrow> static_cast_double n = Finite (of_int n)"
  by (simp add: static_cast_double_def round_to_double_of_int)

lemma double_add_int:
  assumes "\<bar>a + b\<bar> < 2 ^ 53"
  shows "double_add (Finite (of_int a)) (Finite (of_int b)) = Finite (of_int (a + b))"
  using round_to_double_of_int[OF assms] by (simp add: double_add_def)

lemma double_sub_int:
  assumes "\<bar>a - b\<bar> < 2 ^ 53"
  shows "double_sub (Finite (of_int a)) (Finite (of_int b)) = Finite (of_int (a - b))"
  using round_to_double_of_int[OF assms] by (cases "b = 0") (simp_all add: double_sub_def double_add_def)

lemma double_mul_self_int:
  assumes "a * a < 2 ^ 53"
  shows "double_mul (Finite (of_int a)) (Finite (of_int a)) = Finite (of_int (a * a))"
proof -
  have "\<bar>a * a\<bar> < 2 ^ 53" using assms by simp
  from round_to_double_of_int[OF this] show ?thesis
    by (simp add: double_mul_def)
qed

lemma int_le_square: "\<bar>d\<bar> \<le> d * (d::int)"
proof (cases "d = 0")
  case True
  then show ?thesis by simp
next
  case False
  then have "\<bar>d\<bar> * 1 \<le> \<bar>d\<bar> * \<bar>d\<bar>" by (intro mult_left_mono) auto
  then show ?thesis by simp
qed

lemma fold_double_add_int:
  assumes "\<And>i. m \<le> i \<Longrightarrow> i < n \<Longrightarrow> term i = Finite (of_int (t i)) \<and> 0 \<le> t i"
    and "0 \<le> s0" and "s0 + (\<Sum>i = m..<n. t i) < 2 ^ 53"
  shows "fold (\<lambda>i sum_sq. double_add sum_sq (term i)) [m..<n] (Finite (of_int s0))
           = Finite (of_int (s0 + (\<Sum>i = m..<n. t i)))"
  using assms
proof (induction n)
  case 0
  then show ?case by simp
next
  case (Suc n)
  show ?case
  proof (cases "m \<le> n")
    case False
    then show ?thesis by simp
  next
    case True
    have tn: "term n = Finite (of_int (t n))" "0 \<le> t n"
      using Suc.prems(1)[of n] True by simp_all
    have nonneg: "0 \<le> (\<Sum>i = m..<n. t i)"
      by (rule sum_nonneg) (use Suc.prems(1) in auto)
    have total: "s0 + (\<Sum>i = m..<n. t i) + t n < 2 ^ 53"
      using Suc.prems(3) True by simp
    then have part: "s0 + (\<Sum>i = m..<n. t i) < 2 ^ 53" using tn(2) by linarith
    have IH: "fold (\<lambda>i sum_sq. double_add sum_sq (term i)) [m..<n] (Finite (of_int s0))
           = Finite (of_int (s0 + (\<Sum>i = m..<n. t i)))"
      using Suc.prems(1,2) part by (intro Suc.IH) simp_all
    have "\<bar>s0 + (\<Sum>i = m..<n. t i) + t n\<bar> < 2 ^ 53"
      using total nonneg tn(2) Suc.prems(2) by simp
    then have "double_add (Finite (of_int (s0 + (\<Sum>i = m..<n. t i)))) (Finite (of_int (t n)))
            = Finite (of_int (s0 + (\<Sum>i = m..<n. t i) + t n))"
      by (rule double_add_int)
    then show ?thesis using True IH tn(1) by simp
  qed
qed


lemma round_to_double_numeral:
  "numeral k < (2 ^ 53 :: int) \<Longrightarrow> round_to_double (numeral k) = Finite (numeral k)"
  using round_to_double_of_int[of "numeral k"] by simp

lemma round_to_double_neg_numeral:
  "numeral k < (2 ^ 53 :: int) \<Longrightarrow> round_to_double (- numeral k) = Finite (- numeral k)"
  using round_to_double_of_int[of "- numeral k"] by simp

lemma round_to_double_0: "round_to_double 0 = Finite 0"
  by (simp add: round_to_double_def)

lemma round_to_double_1: "round_to_double 1 = Finite 1"
  using round_to_double_of_int[of 1] by simp

lemma round_to_double_neg_1: "round_to_double (- 1) = Finite (- 1)"
  using round_to_double_of_int[of "- 1"] by simp

lemmas round_to_double_simps =
  round_to_double_0 round_to_double_1 round_to_double_neg_1 round_to_double_numeral
  round_to_double_neg_numeral

text \<open>The operations on finite numbers.\<close>

lemma double_add_Finite: "double_add (Finite x) (Finite y) = round_to_double (x + y)"
  by (simp add: double_add_def)

lemma double_sub_Finite: "double_sub (Finite x) (Finite y) = round_to_double (x - y)"
  by (simp add: double_sub_def double_add_def)

lemma double_mul_Finite:
  "double_mul (Finite x) (Finite y)
     = (if x = 0 \<or> y = 0 then (if (x < 0) \<noteq> (y < 0) then NegZero else Finite 0)
        else round_to_double (x * y))"
  by (simp add: double_mul_def)

lemmas double_Finite_simps = double_add_Finite double_sub_Finite double_mul_Finite

lemma square_bound:
  assumes "d * d < (2 ^ 53 :: int)"
  shows "\<bar>d\<bar> < 2 ^ 53"
  using int_le_square[of d] assms by linarith

lemma sq_term:
  assumes "\<bar>x\<bar> < 2 ^ 53" and "\<bar>y\<bar> < 2 ^ 53" and "(x - y) * (x - y) < (2 ^ 53 :: int)"
  shows "(let diff = double_sub (static_cast_double x) (static_cast_double y) in double_mul diff diff)
           = Finite (of_int ((x - y)\<^sup>2))"
proof -
  have "double_sub (static_cast_double x) (static_cast_double y) = Finite (of_int (x - y))"
    using assms(1,2) square_bound[OF assms(3)]
    by (simp only: static_cast_double_exact double_sub_int)
  then show ?thesis
    using double_mul_self_int[OF assms(3)] by (simp add: Let_def power2_eq_square)
qed

lemma sq_term_self:
  assumes "x * x < (2 ^ 53 :: int)"
  shows "double_mul (static_cast_double x) (static_cast_double x) = Finite (of_int (x\<^sup>2))"
  using double_mul_self_int[OF assms] square_bound[OF assms]
  by (simp add: static_cast_double_exact power2_eq_square)

section \<open>Properties of the Euclidean distance\<close>

text \<open>The three sums of the loops add up to the sum over the padded vectors.\<close>

lemma padded_sum:
  "(\<Sum>i = 0..<max (length v1) (length v2). (zero_padded v1 i - zero_padded v2 i)\<^sup>2)
     = (\<Sum>i = 0..<min (length v1) (length v2). (v1 ! i - v2 ! i)\<^sup>2)
       + (\<Sum>i = min (length v1) (length v2)..<length v1. (v1 ! i)\<^sup>2)
       + (\<Sum>i = min (length v1) (length v2)..<length v2. (v2 ! i)\<^sup>2)"
proof -
  let ?n = "min (length v1) (length v2)" and ?m = "max (length v1) (length v2)"
  let ?g = "\<lambda>i. (zero_padded v1 i - zero_padded v2 i)\<^sup>2"
  have split: "sum ?g {0..<?m} = sum ?g {0..<?n} + sum ?g {?n..<?m}"
    by (rule sum.atLeastLessThan_concat[symmetric]) simp_all
  have a: "sum ?g {0..<?n} = (\<Sum>i = 0..<?n. (v1 ! i - v2 ! i)\<^sup>2)"
    by (rule sum.cong) (simp_all add: zero_padded_def)
  have b: "sum ?g {?n..<?m}
             = (\<Sum>i = ?n..<length v1. (v1 ! i)\<^sup>2) + (\<Sum>i = ?n..<length v2. (v2 ! i)\<^sup>2)"
  proof (cases "length v1 \<le> length v2")
    case True
    then have "sum ?g {?n..<?m} = (\<Sum>i = ?n..<length v2. (v2 ! i)\<^sup>2)"
      by (intro sum.cong) (auto simp: zero_padded_def min_def max_def)
    then show ?thesis using True by (simp add: min_def)
  next
    case False
    then have "sum ?g {?n..<?m} = (\<Sum>i = ?n..<length v1. (v1 ! i)\<^sup>2)"
      by (intro sum.cong) (auto simp: zero_padded_def min_def max_def)
    then show ?thesis using False by (simp add: min_def)
  qed
  show ?thesis unfolding split a b by simp
qed


text \<open>
  On vectors of integers whose squared distance stays below \<open>2 ^ 53\<close> the three loops are
  exact, and the one rounding is that of the square root.
\<close>

lemma euclidean_distance_counts:
  assumes small: "\<forall>k \<in> set a \<union> set b. \<bar>k\<bar> < 2 ^ 53"
    and bound: "(\<Sum>i = 0..<min (length a) (length b). (a ! i - b ! i)\<^sup>2)
       + (\<Sum>i = min (length a) (length b)..<length a. (a ! i)\<^sup>2)
       + (\<Sum>i = min (length a) (length b)..<length b. (b ! i)\<^sup>2) < 2 ^ 53"
  shows "euclidean_distance (map static_cast_double a) (map static_cast_double b)
           = round_to_double (sqrt (of_int
               ((\<Sum>i = 0..<min (length a) (length b). (a ! i - b ! i)\<^sup>2)
                + (\<Sum>i = min (length a) (length b)..<length a. (a ! i)\<^sup>2)
                + (\<Sum>i = min (length a) (length b)..<length b. (b ! i)\<^sup>2))))"
proof -
  define n where "n = min (length a) (length b)"
  define v1 where "v1 = map static_cast_double a"
  define v2 where "v2 = map static_cast_double b"
  define S where "S = (\<Sum>i = 0..<n. (a ! i - b ! i)\<^sup>2)"
  define T1 where "T1 = (\<Sum>i = n..<length a. (a ! i)\<^sup>2)"
  define T2 where "T2 = (\<Sum>i = n..<length b. (b ! i)\<^sup>2)"
  have len: "length v1 = length a" "length v2 = length b"
    by (simp_all add: v1_def v2_def)
  have S0: "0 \<le> S" and T10: "0 \<le> T1" and T20: "0 \<le> T2"
    by (simp_all add: S_def T1_def T2_def sum_nonneg)
  have total: "S + T1 + T2 < 2 ^ 53"
    using bound by (simp add: S_def T1_def T2_def n_def)
  have a_small: "\<And>i. i < length a \<Longrightarrow> \<bar>a ! i\<bar> < 2 ^ 53"
    and b_small: "\<And>i. i < length b \<Longrightarrow> \<bar>b ! i\<bar> < 2 ^ 53"
    using small by auto
  have pre_term: "(let diff = double_sub (v1 ! i) (v2 ! i) in double_mul diff diff)
           = Finite (of_int ((a ! i - b ! i)\<^sup>2)) \<and> 0 \<le> (a ! i - b ! i)\<^sup>2"
    if "0 \<le> i" "i < n" for i
  proof -
    have i: "i < length a" "i < length b" using that by (simp_all add: n_def)
    have "(a ! i - b ! i)\<^sup>2 \<le> S"
      unfolding S_def using that by (intro member_le_sum) simp_all
    then have "(a ! i - b ! i) * (a ! i - b ! i) < 2 ^ 53"
      using total T10 T20 by (simp add: power2_eq_square)
    from sq_term[OF a_small[OF i(1)] b_small[OF i(2)] this] show ?thesis
      using i by (simp add: v1_def v2_def)
  qed
  have pre: "fold (\<lambda>i sum_sq. let diff = double_sub (v1 ! i) (v2 ! i)
                                in double_add sum_sq (double_mul diff diff)) [0..<n] (Finite 0)
             = Finite (of_int S)"
  proof -
    have "fold (\<lambda>i sum_sq. double_add sum_sq
                  (let diff = double_sub (v1 ! i) (v2 ! i) in double_mul diff diff))
            [0..<n] (Finite (of_int 0))
          = Finite (of_int (0 + (\<Sum>i = 0..<n. (a ! i - b ! i)\<^sup>2)))"
      using total T10 T20 by (intro fold_double_add_int pre_term) (simp_all add: S_def)
    then show ?thesis by (simp add: S_def Let_def)
  qed
  have pre': "fold (\<lambda>i sum_sq. double_add sum_sq
                      (double_mul (double_sub (v1 ! i) (v2 ! i)) (double_sub (v1 ! i) (v2 ! i))))
                [0..<n] (Finite 0) = Finite (of_int S)"
    using pre by (simp add: Let_def)
  have t1_term: "double_mul (v1 ! i) (v1 ! i) = Finite (of_int ((a ! i)\<^sup>2)) \<and> 0 \<le> (a ! i)\<^sup>2"
    if "n \<le> i" "i < length a" for i
  proof -
    have "(a ! i)\<^sup>2 \<le> T1"
      unfolding T1_def using that by (intro member_le_sum) simp_all
    then have "a ! i * a ! i < 2 ^ 53"
      using total S0 T20 by (simp add: power2_eq_square)
    from sq_term_self[OF this] show ?thesis
      using that by (simp add: v1_def)
  qed
  have t1: "fold (\<lambda>i sum_sq. double_add sum_sq (double_mul (v1 ! i) (v1 ! i)))
              [n..<length a] (Finite (of_int S)) = Finite (of_int (S + T1))"
    unfolding T1_def using total T20 S0
    by (intro fold_double_add_int t1_term) (simp_all add: T1_def)
  have t2_term: "double_mul (v2 ! i) (v2 ! i) = Finite (of_int ((b ! i)\<^sup>2)) \<and> 0 \<le> (b ! i)\<^sup>2"
    if "n \<le> i" "i < length b" for i
  proof -
    have "(b ! i)\<^sup>2 \<le> T2"
      unfolding T2_def using that by (intro member_le_sum) simp_all
    then have "b ! i * b ! i < 2 ^ 53"
      using total S0 T10 by (simp add: power2_eq_square)
    from sq_term_self[OF this] show ?thesis
      using that by (simp add: v2_def)
  qed
  have t2: "fold (\<lambda>i sum_sq. double_add sum_sq (double_mul (v2 ! i) (v2 ! i)))
              [n..<length b] (Finite (of_int S)) = Finite (of_int (S + T2))"
    unfolding T2_def using total T10 S0
    by (intro fold_double_add_int t2_term) (simp_all add: T2_def)
  have E: "euclidean_distance v1 v2
             = double_sqrt (if length a > n then Finite (of_int (S + T1))
                            else if length b > n then Finite (of_int (S + T2))
                            else Finite (of_int S))"
    unfolding euclidean_distance_def Let_def len n_def[symmetric] pre' t1 t2 ..
  have z1: "\<not> length a > n \<Longrightarrow> T1 = 0" by (simp add: T1_def)
  have z2: "\<not> length b > n \<Longrightarrow> T2 = 0" by (simp add: T2_def)
  have z3: "length a > n \<Longrightarrow> T2 = 0" by (simp add: T2_def n_def)
  have "(if length a > n then Finite (of_int (S + T1))
         else if length b > n then Finite (of_int (S + T2))
         else Finite (of_int S)) = Finite (of_int (S + T1 + T2))"
    using z1 z2 z3 by auto
  then have "euclidean_distance v1 v2 = double_sqrt (Finite (of_int (S + T1 + T2)))"
    unfolding E by simp
  also have "\<dots> = round_to_double (sqrt (of_int (S + T1 + T2)))"
    using S0 T10 T20 by simp
  finally show ?thesis
    unfolding v1_def v2_def S_def T1_def T2_def n_def .
qed

lemma euclidean_distance_overflow:
  "euclidean_distance [Finite (2 ^ 600)] [] = PlusInfinity"
proof -
  have "pow2 1024 \<le> 2 ^ 600 * 2 ^ 600"
  proof -
    have "(2::real) ^ 1024 \<le> 2 ^ 1200" by (rule power_increasing) simp_all
    moreover have "(2::real) ^ 600 * 2 ^ 600 = 2 ^ 1200" by (simp flip: power_add)
    moreover have "pow2 1024 = 2 ^ 1024" by (simp add: pow2_def)
    ultimately show ?thesis by (simp only:)
  qed
  then have "round_to_double (2 ^ 600 * 2 ^ 600) = PlusInfinity"
    by (rule round_to_double_overflow)
  then have "double_mul (Finite (2 ^ 600)) (Finite (2 ^ 600)) = PlusInfinity"
    by (simp add: double_mul_def)
  then show ?thesis
    by (simp add: euclidean_distance_def double_add_def)
qed

lemma euclidean_distance_example:
  "euclidean_distance [Finite 1, Finite 2] [Finite 1, Finite 2, Finite 3] = Finite 3"
proof -
  have s: "sqrt 9 = 3"
  proof -
    have "sqrt 9 = sqrt (3\<^sup>2)" by simp
    also have "\<dots> = 3" by (simp only: real_sqrt_abs abs_numeral)
    finally show ?thesis .
  qed
  show ?thesis
    by (simp add: euclidean_distance_def Let_def upt_rec[of 0] upt_rec[of 1] upt_rec[of 2]
        double_sub_def double_add_def double_mul_def round_to_double_simps s)
qed

lemma euclidean_distance_underflow:
  "euclidean_distance [Finite (1 / 2 ^ 600)] [] = Finite 0"
proof -
  have "(1 / 2 ^ 600) * (1 / 2 ^ 600) = 1 / (2::real) ^ 1200" by (simp flip: power_add)
  also have "\<dots> = pow2 (- 1200)" by (simp add: pow2_def)
  finally have "round_to_double ((1 / 2 ^ 600) * (1 / 2 ^ 600)) = Finite 0"
    by (simp only: round_to_double_underflow)
  then have "double_mul (Finite (1 / 2 ^ 600)) (Finite (1 / 2 ^ 600)) = Finite 0"
    by (simp add: double_mul_def)
  then show ?thesis
    by (simp add: euclidean_distance_def double_add_def round_to_double_0)
qed


lemma euclidean_distance_rounded:
  "euclidean_distance [Finite 1, Finite 1] [] \<noteq> Finite (sqrt 2)"
proof
  assume a: "euclidean_distance [Finite 1, Finite 1] [] = Finite (sqrt 2)"
  have "euclidean_distance [Finite 1, Finite 1] [] = round_to_double (sqrt 2)"
    by (simp add: euclidean_distance_def Let_def upt_rec[of 0] upt_rec[of 1] upt_rec[of 2]
        double_add_def double_mul_def round_to_double_simps)
  with a have "round_to_double (sqrt 2) = Finite (sqrt 2)" by simp
  then have "sqrt 2 \<in> \<rat>" by (rule round_to_double_rational)
  then show False using sqrt_2_not_rat by simp
qed


lemma representable_powers:
  "round_to_double (2 ^ 600) = Finite (2 ^ 600)"
  "round_to_double (1 / 2 ^ 600) = Finite (1 / 2 ^ 600)"
proof -
  have "pow2 600 = 2 ^ 600" "pow2 (- 600) = 1 / 2 ^ 600" by (simp_all add: pow2_def)
  then have a: "2 ^ 600 = pow2 600" and b: "1 / 2 ^ 600 = pow2 (- 600)" by simp_all
  show "round_to_double (2 ^ 600) = Finite (2 ^ 600)"
    unfolding a by (rule round_to_double_pow2) simp_all
  show "round_to_double (1 / 2 ^ 600) = Finite (1 / 2 ^ 600)"
    unfolding b by (rule round_to_double_pow2) simp_all
qed

text \<open>
  C6, as stated: for all vectors the result is the square root of the sum of the squared
  differences and of the trailing squares. \<open>euclidean_distance\<close> computes in \<open>double\<close>,
  and its result is not that square root in general. The square of the
  entry \<open>2 ^ 600\<close> is beyond the largest \<open>double\<close>: the distance of \<open>[2 ^ 600]\<close> and the
  empty vector is infinity, where the square root of the sum is \<open>2 ^ 600\<close>. The square of
  \<open>1 / 2 ^ 600\<close> is below the smallest positive \<open>double\<close>: the distance is 0. Both entries
  are values of \<open>double\<close>. And the distance of \<open>[1, 1]\<close> and the empty vector is a
  \<open>double\<close> next to the square root of 2, which no \<open>double\<close> equals.
\<close>

theorem euclidean_distance_not_exact:
  "euclidean_distance [Finite (2 ^ 600)] [] = PlusInfinity
   \<and> round_to_double (2 ^ 600) = Finite (2 ^ 600)
   \<and> sqrt ((2 ^ 600)\<^sup>2) = (2 ^ 600 :: real)
   \<and> euclidean_distance [Finite (1 / 2 ^ 600)] [] = Finite 0
   \<and> round_to_double (1 / 2 ^ 600) = Finite (1 / 2 ^ 600)
   \<and> sqrt ((1 / 2 ^ 600)\<^sup>2) = (1 / 2 ^ 600 :: real)
   \<and> euclidean_distance [Finite 1, Finite 1] [] \<noteq> Finite (sqrt (1\<^sup>2 + 1\<^sup>2))"
proof (intro conjI)
  show "euclidean_distance [Finite (2 ^ 600)] [] = PlusInfinity"
    by (rule euclidean_distance_overflow)
  show "round_to_double (2 ^ 600) = Finite (2 ^ 600)"
    by (rule representable_powers)
  show "sqrt ((2 ^ 600)\<^sup>2) = (2 ^ 600 :: real)"
    by (simp only: real_sqrt_abs power_abs abs_numeral)
  show "euclidean_distance [Finite (1 / 2 ^ 600)] [] = Finite 0"
    by (rule euclidean_distance_underflow)
  show "round_to_double (1 / 2 ^ 600) = Finite (1 / 2 ^ 600)"
    by (rule representable_powers)
  have "0 \<le> (1 / 2 ^ 600 :: real)" by simp
  then show "sqrt ((1 / 2 ^ 600)\<^sup>2) = (1 / 2 ^ 600 :: real)"
    by (simp only: real_sqrt_abs abs_of_nonneg)
  have two: "(1\<^sup>2 + 1\<^sup>2 :: real) = 2" by simp
  show "euclidean_distance [Finite 1, Finite 1] [] \<noteq> Finite (sqrt (1\<^sup>2 + 1\<^sup>2))"
    unfolding two by (rule euclidean_distance_rounded)
qed

text \<open>
  C6, amended: for all vectors \<open>v1\<close> and \<open>v2\<close> of integers below \<open>2 ^ 53\<close> in magnitude, of
  equal or different lengths, whose sum of the squared differences over the common prefix
  plus the squares of the trailing elements of the longer vector is below \<open>2 ^ 53\<close>,
  \<open>euclidean_distance\<close> is the square root of that sum, rounded once to \<open>double\<close>. The sum
  is the squared distance of the two vectors padded with zeros to the same length. When
  the sum is the square of an integer the distance is that integer: the distance of
  \<open>[1, 2]\<close> and \<open>[1, 2, 3]\<close> is 3.
\<close>

theorem euclidean_distance_zero_padding_counts:
  assumes "\<forall>k \<in> set v1 \<union> set v2. \<bar>k\<bar> < 2 ^ 53"
    and "(\<Sum>i = 0..<max (length v1) (length v2). (zero_padded v1 i - zero_padded v2 i)\<^sup>2)
           < 2 ^ 53"
  shows "euclidean_distance (map static_cast_double v1) (map static_cast_double v2)
           = round_to_double (sqrt (of_int
               ((\<Sum>i = 0..<min (length v1) (length v2). (v1 ! i - v2 ! i)\<^sup>2)
                + (\<Sum>i = min (length v1) (length v2)..<length v1. (v1 ! i)\<^sup>2)
                + (\<Sum>i = min (length v1) (length v2)..<length v2. (v2 ! i)\<^sup>2))))
       \<and> euclidean_distance (map static_cast_double v1) (map static_cast_double v2)
           = round_to_double (sqrt (of_int
               (\<Sum>i = 0..<max (length v1) (length v2).
                   (zero_padded v1 i - zero_padded v2 i)\<^sup>2)))
       \<and> (\<forall>r. 0 \<le> r
              \<and> (\<Sum>i = 0..<max (length v1) (length v2).
                     (zero_padded v1 i - zero_padded v2 i)\<^sup>2) = r\<^sup>2
            \<longrightarrow> euclidean_distance (map static_cast_double v1) (map static_cast_double v2)
                 = Finite (of_int r))
       \<and> euclidean_distance [Finite 1, Finite 2] [Finite 1, Finite 2, Finite 3] = Finite 3"
proof -
  let ?S = "\<Sum>i = 0..<max (length v1) (length v2). (zero_padded v1 i - zero_padded v2 i)\<^sup>2"
  have bound: "(\<Sum>i = 0..<min (length v1) (length v2). (v1 ! i - v2 ! i)\<^sup>2)
       + (\<Sum>i = min (length v1) (length v2)..<length v1. (v1 ! i)\<^sup>2)
       + (\<Sum>i = min (length v1) (length v2)..<length v2. (v2 ! i)\<^sup>2) < 2 ^ 53"
    using assms(2) unfolding padded_sum .
  note loops = euclidean_distance_counts[OF assms(1) bound]
  have padded: "euclidean_distance (map static_cast_double v1) (map static_cast_double v2)
           = round_to_double (sqrt (of_int ?S))"
    unfolding padded_sum by (rule loops)
  have square: "euclidean_distance (map static_cast_double v1) (map static_cast_double v2)
                 = Finite (of_int r)"
    if r: "0 \<le> r \<and> ?S = r\<^sup>2" for r
  proof -
    have "\<bar>r\<bar> \<le> r * r" by (rule int_le_square)
    also have "\<dots> < 2 ^ 53" using assms(2) r by (simp add: power2_eq_square)
    finally have small: "\<bar>r\<bar> < 2 ^ 53" .
    have "sqrt (of_int ?S) = sqrt ((of_int r)\<^sup>2)" using r by simp
    also have "\<dots> = of_int r" using r by (simp only: real_sqrt_abs abs_of_nonneg of_int_0_le_iff)
    finally have "round_to_double (sqrt (of_int ?S)) = Finite (of_int r)"
      using round_to_double_of_int[OF small] by (simp only:)
    then show ?thesis unfolding padded .
  qed
  from loops padded square euclidean_distance_example show ?thesis
    by (intro conjI allI impI)
qed

text \<open>The vectors \<open>[1, 2]\<close> and \<open>[1, 2, 3]\<close> of the specification.\<close>

theorem euclidean_distance_zero_padding_counts_witness:
  "\<bar>1\<bar> < (2 ^ 53 :: int) \<and> \<bar>2\<bar> < (2 ^ 53 :: int) \<and> \<bar>3\<bar> < (2 ^ 53 :: int)
   \<and> (\<Sum>i = 0..<max (length [1, 2 :: int]) (length [1, 2, 3 :: int]).
          (zero_padded [1, 2] i - zero_padded [1, 2, 3] i)\<^sup>2) = 3\<^sup>2
   \<and> map static_cast_double [1, 2] = [Finite 1, Finite 2]
   \<and> map static_cast_double [1, 2, 3] = [Finite 1, Finite 2, Finite 3]
   \<and> euclidean_distance (map static_cast_double [1, 2]) (map static_cast_double [1, 2, 3])
       = Finite 3"
proof -
  have small: "\<forall>k \<in> set [1, 2] \<union> set [1, 2, 3]. \<bar>k\<bar> < (2 ^ 53 :: int)"
    by simp
  have sum: "(\<Sum>i = 0..<max (length [1, 2 :: int]) (length [1, 2, 3 :: int]).
          (zero_padded [1, 2] i - zero_padded [1, 2, 3] i)\<^sup>2) = 3\<^sup>2"
    by (simp add: zero_padded_def eval_nat_numeral)
  have bound: "(\<Sum>i = 0..<max (length [1, 2 :: int]) (length [1, 2, 3 :: int]).
          (zero_padded [1, 2] i - zero_padded [1, 2, 3] i)\<^sup>2) < 2 ^ 53"
    unfolding sum by simp
  have v1: "map static_cast_double [1, 2] = [Finite 1, Finite 2]"
    and v2: "map static_cast_double [1, 2, 3] = [Finite 1, Finite 2, Finite 3]"
    by (simp_all add: static_cast_double_def round_to_double_simps)
  note inst = euclidean_distance_zero_padding_counts[OF small bound]
  have square: "0 \<le> (3::int) \<and> (\<Sum>i = 0..<max (length [1, 2 :: int]) (length [1, 2, 3 :: int]).
          (zero_padded [1, 2] i - zero_padded [1, 2, 3] i)\<^sup>2) = 3\<^sup>2"
    using sum by simp
  have "euclidean_distance (map static_cast_double [1, 2])
      (map static_cast_double [1, 2, 3]) = Finite (of_int 3)"
    by (rule inst[THEN conjunct2, THEN conjunct2, THEN conjunct1, THEN spec, THEN mp,
          OF square])
  then have "euclidean_distance (map static_cast_double [1, 2])
      (map static_cast_double [1, 2, 3]) = Finite 3"
    by simp
  moreover have "\<bar>1\<bar> < (2 ^ 53 :: int)" "\<bar>2\<bar> < (2 ^ 53 :: int)" "\<bar>3\<bar> < (2 ^ 53 :: int)"
    by simp_all
  ultimately show ?thesis using sum v1 v2 by (intro conjI)
qed

section \<open>Properties of the occurrence vectors\<close>

text \<open>An exception ends the loop of \<open>map_to_vector\<close>; otherwise the length is kept.\<close>

lemma fold_map_to_vector_body_Inl: "fold (map_to_vector_body m) occ (Inl e) = Inl e"
  by (induction occ) (simp_all add: map_to_vector_body_def)

lemma fold_map_to_vector_body_length:
  "fold (map_to_vector_body m) occ (Inr r) = Inr v \<Longrightarrow> length v = length r"
proof (induction occ arbitrary: r)
  case Nil
  then show ?case by simp
next
  case (Cons p occ)
  show ?case
  proof (cases "map_to_vector_body m p (Inr r)")
    case (Inl e)
    with Cons.prems show ?thesis by (simp add: fold_map_to_vector_body_Inl)
  next
    case (Inr r')
    then have "length r' = length r"
      by (auto simp: map_to_vector_body_def Let_def split: if_splits)
    moreover have "length v = length r'"
      using Cons.prems Inr by (intro Cons.IH) simp
    ultimately show ?thesis by simp
  qed
qed

lemma map_to_vector_length:
  "map_to_vector occ m = Inr v \<Longrightarrow> length v = nat (m + 1)"
  by (auto simp: map_to_vector_def split: if_splits dest: fold_map_to_vector_body_length)

lemma fold_map_to_vector_body_filter:
  "fold (map_to_vector_body m) (filter (\<lambda>entry. fst entry \<le> m) occ) acc
     = fold (map_to_vector_body m) occ acc"
proof (induction occ arbitrary: acc)
  case Nil
  then show ?case by simp
next
  case (Cons p occ)
  have "\<not> fst p \<le> m \<Longrightarrow> map_to_vector_body m p acc = acc"
    by (cases acc) (simp_all add: map_to_vector_body_def Let_def)
  then show ?case using Cons by simp
qed

lemma map_to_vector_drops:
  "map_to_vector (filter (\<lambda>entry. fst entry \<le> m) occ) m = map_to_vector occ m"
  by (simp add: map_to_vector_def fold_map_to_vector_body_filter)

lemma fold_map_to_vector_body_Inr:
  "\<forall>entry \<in> set occ. 0 \<le> fst entry \<Longrightarrow> \<exists>v. fold (map_to_vector_body m) occ (Inr r) = Inr v"
proof (induction occ arbitrary: r)
  case Nil
  then show ?case by simp
next
  case (Cons p occ)
  have "0 \<le> fst p" using Cons.prems by simp
  then have "\<exists>r'. map_to_vector_body m p (Inr r) = Inr r'"
    by (simp add: map_to_vector_body_def Let_def)
  then show ?case using Cons by auto
qed

lemma map_to_vector_Inr:
  "\<forall>entry \<in> set occ. 0 \<le> fst entry \<Longrightarrow> - 1 \<le> m \<Longrightarrow> m < INT_MAX
     \<Longrightarrow> \<exists>v. map_to_vector occ m = Inr v"
  by (simp add: map_to_vector_def fold_map_to_vector_body_Inr)

lemma euclidean_distance_equal_length:
  assumes "length v1 = length v2"
  shows "euclidean_distance v1 v2
           = double_sqrt (fold (\<lambda>i sum_sq. let diff = double_sub (v1 ! i) (v2 ! i)
                                          in double_add sum_sq (double_mul diff diff))
                            [0..<length v1] (Finite 0))"
  using assms by (simp add: euclidean_distance_def)

lemma fold_upd_other:
  "k \<notin> set ks \<Longrightarrow> fold (\<lambda>x m. m(x \<mapsto> f x)) ks m0 k = m0 k"
  by (induction ks arbitrary: m0) simp_all

lemma fold_upd_lookup:
  "k \<in> set ks \<Longrightarrow> fold (\<lambda>x m. m(x \<mapsto> f x)) ks m0 k = Some (f k)"
proof (induction ks arbitrary: m0)
  case Nil
  then show ?case by simp
next
  case (Cons x ks)
  show ?case
  proof (cases "k \<in> set ks")
    case True
    then show ?thesis using Cons.IH by simp
  next
    case False
    then have kx: "k = x" using Cons.prems by simp
    have "fold (\<lambda>x m. m(x \<mapsto> f x)) (x # ks) m0 k
            = fold (\<lambda>x m. m(x \<mapsto> f x)) ks (m0(x \<mapsto> f x)) k"
      by (simp only: fold_simps)
    also have "\<dots> = (m0(x \<mapsto> f x)) k"
      using False by (rule fold_upd_other)
    also have "\<dots> = Some (f k)"
      using kx by simp
    finally show ?thesis .
  qed
qed

lemma build_max_group_ids_at:
  "feature_type \<in> set feature_types
     \<Longrightarrow> max_group_ids_at (build_max_group_ids db) feature_type = get_max_group_id db feature_type"
  by (simp add: max_group_ids_at_def build_max_group_ids_def fold_upd_lookup)

text \<open>
  C9: in \<open>process_shared_segments_alignments\<close> the two occurrence vectors of a feature
  type that are handed to \<open>euclidean_distance\<close> are built by \<open>map_to_vector\<close> with the
  same \<open>max_group_id\<close>, the one that \<open>get_max_group_id\<close> returned for the feature type.
  Whenever both are built, both have length \<open>max_group_id + 1\<close>, so neither of the two
  conditions that guard the trailing loops of \<open>euclidean_distance\<close> holds and the distance
  is the square root of the sum that the first loop accumulates over the common indices
  alone. Entries of the map whose
  group id exceeds \<open>max_group_id\<close> do not change the vector.
\<close>

theorem occurrence_vectors_same_length:
  "(occurrence_vectors cached_occurrences max_group_ids score_i score_j feature_type
      = Inr (vector1, vector2)
    \<longrightarrow> length vector1 = nat (max_group_ids_at max_group_ids feature_type + 1)
      \<and> length vector2 = nat (max_group_ids_at max_group_ids feature_type + 1)
      \<and> \<not> length vector1 > min (length vector1) (length vector2)
      \<and> \<not> length vector2 > min (length vector1) (length vector2)
      \<and> euclidean_distance vector1 vector2
          = double_sqrt
              (fold (\<lambda>i sum_sq. let diff = double_sub (vector1 ! i) (vector2 ! i)
                                 in double_add sum_sq (double_mul diff diff))
                 [0..<length vector1] (Finite 0)))
   \<and> (feature_type \<in> set feature_types
        \<longrightarrow> max_group_ids_at (build_max_group_ids db) feature_type
              = get_max_group_id db feature_type)
   \<and> map_to_vector (filter (\<lambda>entry. fst entry \<le> max_group_id) occurrences) max_group_id
       = map_to_vector occurrences max_group_id"
proof (intro conjI impI)
  assume a: "occurrence_vectors cached_occurrences max_group_ids score_i score_j feature_type
      = Inr (vector1, vector2)"
  let ?m = "max_group_ids_at max_group_ids feature_type"
  from a have 1: "map_to_vector (cached_occurrences_at cached_occurrences (score_i, feature_type)) ?m
      = Inr vector1"
    and 2: "map_to_vector (cached_occurrences_at cached_occurrences (score_j, feature_type)) ?m
      = Inr vector2"
    by (auto simp: occurrence_vectors_def Let_def split: sum.splits)
  show l1: "length vector1 = nat (?m + 1)" using 1 by (rule map_to_vector_length)
  show l2: "length vector2 = nat (?m + 1)" using 2 by (rule map_to_vector_length)
  show "\<not> length vector1 > min (length vector1) (length vector2)" using l1 l2 by simp
  show "\<not> length vector2 > min (length vector1) (length vector2)" using l1 l2 by simp
  show "euclidean_distance vector1 vector2
          = double_sqrt
              (fold (\<lambda>i sum_sq. let diff = double_sub (vector1 ! i) (vector2 ! i)
                                 in double_add sum_sq (double_mul diff diff))
                 [0..<length vector1] (Finite 0))"
    using l1 l2 by (intro euclidean_distance_equal_length) simp
next
  assume "feature_type \<in> set feature_types"
  then show "max_group_ids_at (build_max_group_ids db) feature_type
              = get_max_group_id db feature_type"
    by (rule build_max_group_ids_at)
next
  show "map_to_vector (filter (\<lambda>entry. fst entry \<le> max_group_id) occurrences) max_group_id
       = map_to_vector occurrences max_group_id"
    by (rule map_to_vector_drops)
qed

text \<open>
  Two scores with the groups 0, 0, 3 and 1, 7, 7, 7, 7, and 4 as the largest group id: group
  7 is left out of the second vector.
\<close>

theorem occurrence_vectors_same_length_witness:
  "occurrence_vectors
      (Map.empty((1, ''diatonic'') \<mapsto> [(0, 2), (3, 1)], (2, ''diatonic'') \<mapsto> [(1, 1), (7, 4)]))
      (Map.empty(''diatonic'' \<mapsto> 4)) 1 2 ''diatonic''
     = Inr ([Finite 2, Finite 0, Finite 0, Finite 1, Finite 0],
            [Finite 0, Finite 1, Finite 0, Finite 0, Finite 0])
   \<and> length [Finite 2, Finite 0, Finite 0, Finite 1, Finite 0] = nat (4 + 1)
   \<and> length [Finite 0, Finite 1, Finite 0, Finite 0, Finite 0] = nat (4 + 1)
   \<and> euclidean_distance [Finite 2, Finite 0, Finite 0, Finite 1, Finite 0]
        [Finite 0, Finite 1, Finite 0, Finite 0, Finite 0] = double_sqrt (Finite 6)
   \<and> ''diatonic'' \<in> set feature_types
   \<and> map_to_vector [(1, 1)] 4 = map_to_vector [(1, 1), (7, 4)] 4"
proof -
  let ?C = "Map.empty((1::int, ''diatonic'') \<mapsto> [(0::int, 2::int), (3, 1)],
              (2, ''diatonic'') \<mapsto> [(1, 1), (7, 4)])"
  let ?M = "Map.empty(''diatonic'' \<mapsto> (4::int))"
  let ?v1 = "[Finite 2, Finite 0, Finite 0, Finite 1, Finite 0]"
  let ?v2 = "[Finite 0, Finite 1, Finite 0, Finite 0, Finite 0]"
  have c: "static_cast_double 1 = Finite 1" "static_cast_double 2 = Finite 2"
    "static_cast_double 4 = Finite 4"
    by (simp_all add: static_cast_double_def round_to_double_simps)
  have ov: "occurrence_vectors ?C ?M 1 2 ''diatonic'' = Inr (?v1, ?v2)"
    by (simp add: occurrence_vectors_def max_group_ids_at_def cached_occurrences_at_def
        map_to_vector_def map_to_vector_body_def INT_MAX_def Let_def eval_nat_numeral c)
  have m: "max_group_ids_at ?M ''diatonic'' = 4"
    by (simp add: max_group_ids_at_def)
  have ft: "''diatonic'' \<in> set feature_types"
    by (simp add: feature_types_def)
  have u: "[0..<length ?v1] = [0, 1, 2, 3, 4]"
    by (simp add: upt_rec[of 0] upt_rec[of 1] upt_rec[of 2] upt_rec[of 3] upt_rec[of 4]
        upt_rec[of 5])
  have loop: "fold (\<lambda>i sum_sq. let diff = double_sub (?v1 ! i) (?v2 ! i)
                                in double_add sum_sq (double_mul diff diff))
                [0..<length ?v1] (Finite 0) = Finite 6"
    unfolding u by (simp add: double_Finite_simps round_to_double_simps)
  note inst = occurrence_vectors_same_length[of ?C ?M 1 2 "''diatonic''" ?v1 ?v2 undefined 4
      "[(1, 1), (7, 4)]"]
  from inst ov m have
    "length ?v1 = nat (4 + 1)"
    "length ?v2 = nat (4 + 1)"
    "euclidean_distance ?v1 ?v2
       = double_sqrt (fold (\<lambda>i sum_sq. let diff = double_sub (?v1 ! i) (?v2 ! i)
                                        in double_add sum_sq (double_mul diff diff))
                        [0..<length ?v1] (Finite 0))"
    "map_to_vector [(1, 1)] 4 = map_to_vector [(1, 1), (7, 4)] 4"
    by simp_all
  then show ?thesis using ov ft unfolding loop by simp
qed

section \<open>Properties of the batch writer\<close>

text \<open>Inserting rows leaves the behaviour of the database as it is.\<close>

lemma insert_alignment_fields [simp]:
  "prepares (insert_alignment seg a db) = prepares db"
  "accepts (insert_alignment seg a db) = accepts db"
  by (simp_all add: insert_alignment_def Let_def)

lemma fold_insert_alignment_fields [simp]:
  "prepares (fold (insert_alignment seg) as db) = prepares db"
  "accepts (fold (insert_alignment seg) as db) = accepts db"
  by (induction as arbitrary: db) simp_all

lemma save_alignments_batch_fields [simp]:
  "prepares (save_alignments_batch db as seg) = prepares db"
  "accepts (save_alignments_batch db as seg) = accepts db"
  by (simp_all add: save_alignments_batch_def)

lemma fold_insert_alignment_rows:
  "\<exists>new. inserted (fold (insert_alignment seg) as db) = inserted db @ new
         \<and> set new \<subseteq> bind_row seg ` set as"
proof (induction as arbitrary: db)
  case Nil
  then show ?case by simp
next
  case (Cons a as)
  obtain new where new: "inserted (fold (insert_alignment seg) as (insert_alignment seg a db))
      = inserted (insert_alignment seg a db) @ new" "set new \<subseteq> bind_row seg ` set as"
    using Cons.IH by blast
  show ?case
  proof (cases "accepts db (inserted db) (bind_row seg a)")
    case True
    then have "inserted (fold (insert_alignment seg) (a # as) db)
                 = inserted db @ (bind_row seg a # new)"
      using new by (simp add: insert_alignment_def Let_def)
    moreover have "set (bind_row seg a # new) \<subseteq> bind_row seg ` set (a # as)"
      using new by auto
    ultimately show ?thesis by blast
  next
    case False
    then have "inserted (fold (insert_alignment seg) (a # as) db) = inserted db @ new"
      using new by (simp add: insert_alignment_def Let_def)
    moreover have "set new \<subseteq> bind_row seg ` set (a # as)"
      using new by auto
    ultimately show ?thesis by blast
  qed
qed

lemma fold_insert_alignment_all:
  "\<forall>t r. accepts db t r
     \<Longrightarrow> inserted (fold (insert_alignment seg) as db) = inserted db @ map (bind_row seg) as"
proof (induction as arbitrary: db)
  case Nil
  then show ?case by simp
next
  case (Cons a as)
  have "\<forall>t r. accepts (insert_alignment seg a db) t r"
    using Cons.prems by simp
  then show ?case
    using Cons.IH[of "insert_alignment seg a db"] Cons.prems
    by (simp add: insert_alignment_def Let_def)
qed

lemma save_alignments_batch_all:
  "prepares db (if seg then InsertSegmentAlignment else InsertScoreAlignment)
     \<Longrightarrow> \<forall>t r. accepts db t r
     \<Longrightarrow> inserted (save_alignments_batch db as seg) = inserted db @ map (bind_row seg) as"
  by (simp add: save_alignments_batch_def fold_insert_alignment_all)

lemma bind_row_ids:
  "row_id1 (bind_row seg a) = min (id1 a) (id2 a)"
  "row_id2 (bind_row seg a) = max (id1 a) (id2 a)"
  by (simp_all add: bind_row_def)

text \<open>
  C2: for every record passed to \<open>save_alignments_batch\<close>, whichever of \<open>id1\<close> and \<open>id2\<close>
  is the smaller, the row that is inserted holds the smaller id first and the larger id
  second, so the first id of a row is below the second whenever the two ids differ. The
  rows that a call adds all come from records of the batch; it adds one row for every
  record, in order, when the statement is prepared and every insert is taken.
\<close>

theorem save_alignments_batch_canonical:
  "\<exists>new. inserted (save_alignments_batch db alignments is_segment) = inserted db @ new
     \<and> (\<forall>r \<in> set new. \<exists>a \<in> set alignments.
           r = bind_row is_segment a
         \<and> row_id1 r = min (id1 a) (id2 a)
         \<and> row_id2 r = max (id1 a) (id2 a)
         \<and> (id1 a \<noteq> id2 a \<longrightarrow> row_id1 r < row_id2 r))
     \<and> (prepares db (if is_segment then InsertSegmentAlignment else InsertScoreAlignment)
          \<and> (\<forall>t r. accepts db t r)
        \<longrightarrow> new = map (bind_row is_segment) alignments)"
proof -
  obtain new where new:
    "inserted (save_alignments_batch db alignments is_segment) = inserted db @ new"
    "set new \<subseteq> bind_row is_segment ` set alignments"
  proof (cases "prepares db (if is_segment then InsertSegmentAlignment else InsertScoreAlignment)")
    case True
    then show ?thesis
      using fold_insert_alignment_rows[of is_segment alignments db] that
      by (auto simp: save_alignments_batch_def)
  next
    case False
    then have "inserted (save_alignments_batch db alignments is_segment) = inserted db @ []"
      by (simp add: save_alignments_batch_def)
    then show ?thesis using that[of "[]"] by simp
  qed
  have canon: "\<forall>r \<in> set new. \<exists>a \<in> set alignments.
           r = bind_row is_segment a
         \<and> row_id1 r = min (id1 a) (id2 a)
         \<and> row_id2 r = max (id1 a) (id2 a)
         \<and> (id1 a \<noteq> id2 a \<longrightarrow> row_id1 r < row_id2 r)"
  proof
    fix r assume "r \<in> set new"
    then obtain a where a: "a \<in> set alignments" "r = bind_row is_segment a"
      using new(2) by auto
    have "id1 a \<noteq> id2 a \<longrightarrow> min (id1 a) (id2 a) < max (id1 a) (id2 a)"
      by auto
    then show "\<exists>a \<in> set alignments.
           r = bind_row is_segment a
         \<and> row_id1 r = min (id1 a) (id2 a)
         \<and> row_id2 r = max (id1 a) (id2 a)
         \<and> (id1 a \<noteq> id2 a \<longrightarrow> row_id1 r < row_id2 r)"
      using a by (auto simp: bind_row_ids)
  qed
  have full: "prepares db (if is_segment then InsertSegmentAlignment else InsertScoreAlignment)
          \<and> (\<forall>t r. accepts db t r)
        \<longrightarrow> new = map (bind_row is_segment) alignments"
  proof
    assume "prepares db (if is_segment then InsertSegmentAlignment else InsertScoreAlignment)
          \<and> (\<forall>t r. accepts db t r)"
    then have "inserted (save_alignments_batch db alignments is_segment)
                 = inserted db @ map (bind_row is_segment) alignments"
      by (intro save_alignments_batch_all) simp_all
    then show "new = map (bind_row is_segment) alignments"
      using new(1) by simp
  qed
  show ?thesis using new(1) canon full by blast
qed

text \<open>A record whose first id is the larger one.\<close>

theorem save_alignments_batch_canonical_witness:
  "inserted (save_alignments_batch three_scores
       [\<lparr>id1 = 7, id2 = 3, level = ''note'', diatonic_score = 1, chromatic_score = 2,
         rhythmic_score = 3, diatonic_rhythmic_score = 4, chromatic_rhythmic_score = 5\<rparr>] False)
     = [ScoreAlignment 3 7 ''note'' 1 2 3 4 5]
   \<and> row_id1 (ScoreAlignment 3 7 ''note'' 1 2 3 4 5) < row_id2 (ScoreAlignment 3 7 ''note'' 1 2 3 4 5)"
proof -
  let ?a = "\<lparr>id1 = 7, id2 = 3, level = ''note'', diatonic_score = 1, chromatic_score = 2,
         rhythmic_score = 3, diatonic_rhythmic_score = 4, chromatic_rhythmic_score = 5\<rparr>"
  obtain new where new:
    "inserted (save_alignments_batch three_scores [?a] False) = inserted three_scores @ new"
    "\<forall>r \<in> set new. \<exists>a \<in> set [?a].
           r = bind_row False a
         \<and> row_id1 r = min (id1 a) (id2 a)
         \<and> row_id2 r = max (id1 a) (id2 a)
         \<and> (id1 a \<noteq> id2 a \<longrightarrow> row_id1 r < row_id2 r)"
    "prepares three_scores (if False then InsertSegmentAlignment else InsertScoreAlignment)
          \<and> (\<forall>t r. accepts three_scores t r)
        \<longrightarrow> new = map (bind_row False) [?a]"
    using save_alignments_batch_canonical[of three_scores "[?a]" False] by blast
  have "prepares three_scores (if False then InsertSegmentAlignment else InsertScoreAlignment)
          \<and> (\<forall>t r. accepts three_scores t r)"
    by (simp add: three_scores_def)
  with new(3) have n: "new = [ScoreAlignment 3 7 ''note'' 1 2 3 4 5]"
    by (simp add: bind_row_def)
  have "row_id1 (ScoreAlignment 3 7 ''note'' 1 2 3 4 5) < row_id2 (ScoreAlignment 3 7 ''note'' 1 2 3 4 5)"
    using new(2) unfolding n by (simp add: bind_row_def)
  moreover have "inserted (save_alignments_batch three_scores [?a] False)
                   = [ScoreAlignment 3 7 ''note'' 1 2 3 4 5]"
    using new(1) n by (simp add: three_scores_def)
  ultimately show ?thesis by simp
qed

section \<open>Properties of the pairwise sweep\<close>

lemma sqlite3_exec_fields [simp]:
  "prepares (sqlite3_exec db sql) = prepares db"
  "accepts (sqlite3_exec db sql) = accepts db"
  "inserted (sqlite3_exec db sql) = inserted db"
  by (simp_all add: sqlite3_exec_def)

lemma sum_upto_gauss: "(\<Sum>i<n. i) = n * (n - 1) div (2::nat)"
proof (induction n)
  case 0
  then show ?case by simp
next
  case (Suc n)
  then show ?case by (cases n) simp_all
qed

lemma length_pair_indices: "length (pair_indices n) = n * (n - 1) div 2"
proof -
  have "length (pair_indices n) = (\<Sum>i<n. n - Suc i)"
    by (simp add: pair_indices_def length_concat comp_def interv_sum_list_conv_sum_set_nat
        atLeast0LessThan)
  also have "\<dots> = (\<Sum>i<n. i)"
    by (rule sum.nat_diff_reindex)
  finally show ?thesis by (simp add: sum_upto_gauss)
qed

lemma in_pair_indices: "(i, j) \<in> set (pair_indices n) \<longleftrightarrow> i < j \<and> j < n"
proof -
  have "(i, j) \<in> set (pair_indices n)
          \<longleftrightarrow> (\<exists>k \<in> {0..<n}. (i, j) \<in> Pair k ` {Suc k..<n})"
    by (simp add: pair_indices_def)
  also have "\<dots> \<longleftrightarrow> i < n \<and> Suc i \<le> j \<and> j < n"
    by (simp add: image_iff Bex_def)
  also have "\<dots> \<longleftrightarrow> i < j \<and> j < n"
    by linarith
  finally show ?thesis .
qed

lemma set_pair_indices: "set (pair_indices n) = {(i, j). i < j \<and> j < n}"
  using in_pair_indices by (intro set_eqI) (simp add: split_paired_all)

lemma distinct_pair_indices: "distinct (pair_indices n)"
  unfolding pair_indices_def
proof (rule distinct_concat)
  have "inj_on (\<lambda>i. map (Pair i) [Suc i..<n]) {0..<n}"
  proof (rule inj_onI)
    fix x y assume x: "x \<in> {0..<n}" and y: "y \<in> {0..<n}"
      and eq: "map (Pair x) [Suc x..<n] = map (Pair y) [Suc y..<n]"
    from eq have "length (map (Pair x) [Suc x..<n]) = length (map (Pair y) [Suc y..<n])"
      by simp
    then show "x = y" using x y by simp
  qed
  then show "distinct (map (\<lambda>i. map (Pair i) [Suc i..<n]) [0..<n])"
    by (simp add: distinct_map)
next
  fix ys assume "ys \<in> set (map (\<lambda>i. map (Pair i) [Suc i..<n]) [0..<n])"
  then obtain i where "ys = map (Pair i) [Suc i..<n]" by auto
  then show "distinct ys" by (simp add: distinct_map inj_on_def)
next
  fix ys zs
  assume "ys \<in> set (map (\<lambda>i. map (Pair i) [Suc i..<n]) [0..<n])"
    "zs \<in> set (map (\<lambda>i. map (Pair i) [Suc i..<n]) [0..<n])" "ys \<noteq> zs"
  then obtain i j where ij: "ys = map (Pair i) [Suc i..<n]" "zs = map (Pair j) [Suc j..<n]"
    "i \<noteq> j" by auto
  have "fst ` set ys \<subseteq> {i}" "fst ` set zs \<subseteq> {j}" using ij by auto
  then show "set ys \<inter> set zs = {}" using ij(3) by fastforce
qed

lemma fold_nested:
  "fold (\<lambda>i. fold (g i) (js i)) is st
     = fold (\<lambda>(i, j). g i j) (concat (map (\<lambda>i. map (Pair i) (js i)) is)) st"
  by (induction "is" arbitrary: st) (simp_all add: fold_map comp_def)

lemma fold_pairs:
  "fold (\<lambda>i. fold (g i) [Suc i..<n]) [0..<n] st = fold (\<lambda>(i, j). g i j) (pair_indices n) st"
  unfolding pair_indices_def by (rule fold_nested)

lemma push_back_batch_good:
  assumes "prepares (snd st) (if seg then InsertSegmentAlignment else InsertScoreAlignment)"
    and "\<forall>t r. accepts (snd st) t r"
  shows "prepares (snd (push_back_batch seg a st)) = prepares (snd st)"
    and "accepts (snd (push_back_batch seg a st)) = accepts (snd st)"
    and "inserted (snd (push_back_batch seg a st)) @ map (bind_row seg) (fst (push_back_batch seg a st))
           = inserted (snd st) @ map (bind_row seg) (fst st) @ [bind_row seg a]"
  using assms
  by (simp_all add: push_back_batch_def Let_def save_alignments_batch_all)

lemma fold_push_back_batch:
  assumes "prepares (snd st) (if seg then InsertSegmentAlignment else InsertScoreAlignment)"
    and "\<forall>t r. accepts (snd st) t r"
  shows "prepares (snd (fold (\<lambda>p. push_back_batch seg (f p)) ps st)) = prepares (snd st)
       \<and> accepts (snd (fold (\<lambda>p. push_back_batch seg (f p)) ps st)) = accepts (snd st)
       \<and> inserted (snd (fold (\<lambda>p. push_back_batch seg (f p)) ps st))
           @ map (bind_row seg) (fst (fold (\<lambda>p. push_back_batch seg (f p)) ps st))
         = inserted (snd st) @ map (bind_row seg) (fst st) @ map (\<lambda>p. bind_row seg (f p)) ps"
  using assms
proof (induction ps arbitrary: st)
  case Nil
  then show ?case by simp
next
  case (Cons p ps)
  let ?st = "push_back_batch seg (f p) st"
  note g = push_back_batch_good[OF Cons.prems, of "f p"]
  have 1: "prepares (snd ?st) (if seg then InsertSegmentAlignment else InsertScoreAlignment)"
    using g(1) Cons.prems(1) by simp
  have 2: "\<forall>t r. accepts (snd ?st) t r"
    using g(2) Cons.prems(2) by simp
  show ?case
    using Cons.IH[OF 1 2] g by simp
qed

lemma flush_rows:
  assumes "prepares (snd st) (if seg then InsertSegmentAlignment else InsertScoreAlignment)"
    and "\<forall>t r. accepts (snd st) t r"
  shows "inserted (if fst st \<noteq> [] then save_alignments_batch (snd st) (fst st) seg else snd st)
           = inserted (snd st) @ map (bind_row seg) (fst st)"
  using assms by (simp add: save_alignments_batch_all)

lemma process_alignments_rows:
  assumes "prepares db (if is_segment then InsertSegmentAlignment else InsertScoreAlignment)"
    and "\<forall>t r. accepts db t r"
  shows "inserted (process_alignments db data is_segment lvl)
           = inserted db @ map (\<lambda>(i, j). bind_row is_segment
                                  (alignment_scores (data ! i) (data ! j) lvl))
                             (pair_indices (length data))"
proof -
  let ?f = "\<lambda>p. alignment_scores (data ! fst p) (data ! snd p) lvl"
  let ?st = "fold (\<lambda>p. push_back_batch is_segment (?f p)) (pair_indices (length data)) ([], db)"
  have st: "fold (\<lambda>i. fold (\<lambda>j. push_back_batch is_segment
                                     (alignment_scores (data ! i) (data ! j) lvl))
                           [Suc i..<length data])
                 [0..<length data] ([], db) = ?st"
    by (simp add: fold_pairs case_prod_unfold)
  have inv: "prepares (snd ?st) = prepares db \<and> accepts (snd ?st) = accepts db
       \<and> inserted (snd ?st) @ map (bind_row is_segment) (fst ?st)
           = inserted db @ map (\<lambda>p. bind_row is_segment (?f p)) (pair_indices (length data))"
    using fold_push_back_batch[of "([], db)" is_segment ?f "pair_indices (length data)"] assms
    by simp
  have "inserted (process_alignments db data is_segment lvl)
          = inserted (if fst ?st \<noteq> [] then save_alignments_batch (snd ?st) (fst ?st) is_segment
                      else snd ?st)"
    unfolding process_alignments_def Let_def st ..
  also have "\<dots> = inserted (snd ?st) @ map (bind_row is_segment) (fst ?st)"
    using inv assms by (intro flush_rows) simp_all
  finally show ?thesis
    using inv by (simp add: case_prod_unfold)
qed

lemma map_increment_keys: "fst ` set (map_increment k m) = insert k (fst ` set m)"
  by (induction k m rule: map_increment.induct) auto

lemma fold_map_increment_keys: "fst ` set (fold map_increment ks m) = set ks \<union> fst ` set m"
  by (induction ks arbitrary: m) (simp_all add: map_increment_keys)

lemma get_group_occurrences_keys:
  "entry \<in> set (get_group_occurrences db s ft) \<Longrightarrow> fst entry \<in> set (group_ids db s ft)"
proof -
  assume a: "entry \<in> set (get_group_occurrences db s ft)"
  then have p: "prepares db SelectGroupOccurrences"
    by (auto simp: get_group_occurrences_def split: if_splits)
  from a have "fst entry \<in> fst ` set (get_group_occurrences db s ft)"
    by (rule imageI)
  then show ?thesis
    using p by (simp add: get_group_occurrences_def fold_map_increment_keys)
qed

lemma get_max_group_id_range:
  assumes "\<forall>ft m. max_group db ft = Some m \<longrightarrow> 0 \<le> m \<and> m < INT_MAX"
  shows "- 1 \<le> get_max_group_id db ft \<and> get_max_group_id db ft < INT_MAX"
proof (cases "max_group db ft")
  case None
  then show ?thesis by (simp add: get_max_group_id_def INT_MAX_def)
next
  case (Some m)
  then have "0 \<le> m" "m < INT_MAX" using assms by simp_all
  moreover have "0 < INT_MAX" by (simp add: INT_MAX_def)
  ultimately show ?thesis using Some by (simp add: get_max_group_id_def)
qed

lemma build_cached_occurrences_at:
  assumes "s \<in> set scores" and "ft \<in> set feature_types"
  shows "cached_occurrences_at (build_cached_occurrences db scores) (s, ft)
           = get_group_occurrences db s ft"
proof -
  let ?keys = "concat (map (\<lambda>i. map (Pair i) feature_types) scores)"
  have "build_cached_occurrences db scores
          = fold (\<lambda>k m. m(k \<mapsto> get_group_occurrences db (fst k) (snd k))) ?keys Map.empty"
    unfolding build_cached_occurrences_def
    by (simp add: fold_nested[of _ "\<lambda>_. feature_types"] case_prod_unfold)
  moreover have "(s, ft) \<in> set ?keys"
    using assms by auto
  ultimately have "build_cached_occurrences db scores (s, ft)
                     = Some (get_group_occurrences db (fst (s, ft)) (snd (s, ft)))"
    by (simp only: fold_upd_lookup)
  then show ?thesis
    by (simp add: cached_occurrences_at_def)
qed

lemma map_to_vector_occurrences_Inr:
  assumes "\<forall>s ft. \<forall>g \<in> set (group_ids db s ft). 0 \<le> g"
    and "\<forall>ft m. max_group db ft = Some m \<longrightarrow> 0 \<le> m \<and> m < INT_MAX"
  shows "\<exists>v. map_to_vector (get_group_occurrences db s ft) (get_max_group_id db ft) = Inr v"
proof (rule map_to_vector_Inr)
  show "\<forall>entry \<in> set (get_group_occurrences db s ft). 0 \<le> fst entry"
    using assms(1) get_group_occurrences_keys by blast
  show "- 1 \<le> get_max_group_id db ft" "get_max_group_id db ft < INT_MAX"
    using get_max_group_id_range[OF assms(2)] by simp_all
qed

lemma feature_type_body_ProfileDistance:
  assumes "\<forall>s ft. \<forall>g \<in> set (group_ids db s ft). 0 \<le> g"
    and "\<forall>ft m. max_group db ft = Some m \<longrightarrow> 0 \<le> m \<and> m < INT_MAX"
    and "si \<in> set scores" and "sj \<in> set scores" and "ft \<in> set feature_types"
  shows "feature_type_body (build_cached_occurrences db scores) (build_max_group_ids db)
           si sj ft (Inr r)
         = Inr (assign_score ft (ProfileDistance db si sj ft) r)"
proof -
  obtain v1 where v1: "map_to_vector (get_group_occurrences db si ft) (get_max_group_id db ft)
      = Inr v1"
    using map_to_vector_occurrences_Inr[OF assms(1,2)] by blast
  obtain v2 where v2: "map_to_vector (get_group_occurrences db sj ft) (get_max_group_id db ft)
      = Inr v2"
    using map_to_vector_occurrences_Inr[OF assms(1,2)] by blast
  have ov: "occurrence_vectors (build_cached_occurrences db scores) (build_max_group_ids db)
              si sj ft = Inr (v1, v2)"
    using assms(3-5) v1 v2
    by (simp add: occurrence_vectors_def Let_def build_cached_occurrences_at
        build_max_group_ids_at)
  have pd: "ProfileDistance db si sj ft
              = static_cast_int (c_round (double_mul (euclidean_distance v1 v2) (Finite 100)))"
    by (simp add: ProfileDistance_def v1 v2)
  show ?thesis
    by (simp add: feature_type_body_def ov pd Let_def)
qed

lemma shared_scores_ProfileDistance:
  assumes "\<forall>s ft. \<forall>g \<in> set (group_ids db s ft). 0 \<le> g"
    and "\<forall>ft m. max_group db ft = Some m \<longrightarrow> 0 \<le> m \<and> m < INT_MAX"
    and "si \<in> set scores" and "sj \<in> set scores"
  shows "shared_scores (build_cached_occurrences db scores) (build_max_group_ids db) si sj lvl
         = Inr \<lparr>id1 = si, id2 = sj, level = lvl,
                diatonic_score = ProfileDistance db si sj ''diatonic'',
                chromatic_score = ProfileDistance db si sj ''chromatic'',
                rhythmic_score = ProfileDistance db si sj ''rhythmic'',
                diatonic_rhythmic_score = ProfileDistance db si sj ''diatonic_rhythmic'',
                chromatic_rhythmic_score = ProfileDistance db si sj ''chromatic_rhythmic''\<rparr>"
proof -
  note body = feature_type_body_ProfileDistance[OF assms]
  have fts: "''diatonic'' \<in> set feature_types" "''chromatic'' \<in> set feature_types"
    "''rhythmic'' \<in> set feature_types" "''diatonic_rhythmic'' \<in> set feature_types"
    "''chromatic_rhythmic'' \<in> set feature_types"
    by (simp_all add: feature_types_def)
  show ?thesis
    unfolding shared_scores_def
    by (subst feature_types_def) (simp add: body[OF fts(1)] body[OF fts(2)] body[OF fts(3)]
        body[OF fts(4)] body[OF fts(5)] assign_score_def)
qed

lemma fold_faultless:
  assumes "\<forall>p \<in> set ps. F p = Inr (f p)"
  shows "fold (\<lambda>p acc. case acc of
                          Inl e \<Rightarrow> Inl e
                        | Inr st \<Rightarrow> (case F p of
                                      Inl e \<Rightarrow> Inl e
                                    | Inr a \<Rightarrow> Inr (push_back_batch seg a st)))
           ps (Inr st)
         = Inr (fold (\<lambda>p. push_back_batch seg (f p)) ps st)"
  using assms by (induction ps arbitrary: st) simp_all

lemma process_shared_segments_alignments_rows:
  assumes store: "prepares db InsertScoreAlignment" "\<forall>t r. accepts db t r"
    and groups: "\<forall>s ft. \<forall>g \<in> set (group_ids db s ft). 0 \<le> g"
      "\<forall>ft m. max_group db ft = Some m \<longrightarrow> 0 \<le> m \<and> m < INT_MAX"
  shows "\<exists>db'. process_shared_segments_alignments db lvl = Inr db'
           \<and> inserted db'
               = inserted db @ map (\<lambda>(i, j). bind_row False
                   \<lparr>id1 = get_all_score_ids db ! i, id2 = get_all_score_ids db ! j, level = lvl,
                    diatonic_score = ProfileDistance db (get_all_score_ids db ! i)
                      (get_all_score_ids db ! j) ''diatonic'',
                    chromatic_score = ProfileDistance db (get_all_score_ids db ! i)
                      (get_all_score_ids db ! j) ''chromatic'',
                    rhythmic_score = ProfileDistance db (get_all_score_ids db ! i)
                      (get_all_score_ids db ! j) ''rhythmic'',
                    diatonic_rhythmic_score = ProfileDistance db (get_all_score_ids db ! i)
                      (get_all_score_ids db ! j) ''diatonic_rhythmic'',
                    chromatic_rhythmic_score = ProfileDistance db (get_all_score_ids db ! i)
                      (get_all_score_ids db ! j) ''chromatic_rhythmic''\<rparr>)
                 (pair_indices (length (get_all_score_ids db)))"
proof -
  define scores where "scores = get_all_score_ids db"
  define C where "C = build_cached_occurrences db scores"
  define M where "M = build_max_group_ids db"
  define F where "F = (\<lambda>p. shared_scores C M (scores ! fst p) (scores ! snd p) lvl)"
  define f where "f = (\<lambda>p.
      \<lparr>id1 = scores ! fst p, id2 = scores ! snd p, level = lvl,
       diatonic_score = ProfileDistance db (scores ! fst p) (scores ! snd p) ''diatonic'',
       chromatic_score = ProfileDistance db (scores ! fst p) (scores ! snd p) ''chromatic'',
       rhythmic_score = ProfileDistance db (scores ! fst p) (scores ! snd p) ''rhythmic'',
       diatonic_rhythmic_score =
         ProfileDistance db (scores ! fst p) (scores ! snd p) ''diatonic_rhythmic'',
       chromatic_rhythmic_score =
         ProfileDistance db (scores ! fst p) (scores ! snd p) ''chromatic_rhythmic''\<rparr>)"
  define ps where "ps = pair_indices (length scores)"
  define st where "st = fold (\<lambda>p. push_back_batch False (f p)) ps ([], db)"
  have Ff: "\<forall>p \<in> set ps. F p = Inr (f p)"
  proof
    fix p assume "p \<in> set ps"
    then have "fst p < length scores" "snd p < length scores"
      by (auto simp: ps_def set_pair_indices)
    then have "scores ! fst p \<in> set scores" "scores ! snd p \<in> set scores"
      by simp_all
    then show "F p = Inr (f p)"
      unfolding F_def f_def C_def M_def
      by (rule shared_scores_ProfileDistance[OF groups])
  qed
  have loop: "fold (\<lambda>i. fold (\<lambda>j acc.
                               case acc of
                                 Inl e \<Rightarrow> Inl e
                               | Inr st \<Rightarrow>
                                   (case shared_scores C M (scores ! i) (scores ! j) lvl of
                                      Inl e \<Rightarrow> Inl e
                                    | Inr scores_result \<Rightarrow>
                                        Inr (push_back_batch False scores_result st)))
                           [Suc i..<length scores])
                 [0..<length scores] (Inr ([], db)) = Inr st"
  proof -
    have "fold (\<lambda>i. fold (\<lambda>j acc.
                               case acc of
                                 Inl e \<Rightarrow> Inl e
                               | Inr st \<Rightarrow>
                                   (case shared_scores C M (scores ! i) (scores ! j) lvl of
                                      Inl e \<Rightarrow> Inl e
                                    | Inr scores_result \<Rightarrow>
                                        Inr (push_back_batch False scores_result st)))
                           [Suc i..<length scores])
                 [0..<length scores] (Inr ([], db))
          = fold (\<lambda>p acc. case acc of
                          Inl e \<Rightarrow> Inl e
                        | Inr st \<Rightarrow> (case F p of
                                      Inl e \<Rightarrow> Inl e
                                    | Inr a \<Rightarrow> Inr (push_back_batch False a st)))
              ps (Inr ([], db))"
      unfolding F_def ps_def fold_pairs case_prod_unfold ..
    also have "\<dots> = Inr st"
      unfolding st_def by (rule fold_faultless[OF Ff])
    finally show ?thesis .
  qed
  have inv: "prepares (snd st) = prepares db \<and> accepts (snd st) = accepts db
       \<and> inserted (snd st) @ map (bind_row False) (fst st)
           = inserted db @ map (\<lambda>p. bind_row False (f p)) ps"
    unfolding st_def
    using fold_push_back_batch[of "([], db)" False f ps] store by simp
  have res: "process_shared_segments_alignments db lvl
          = Inr (if fst st \<noteq> [] then save_alignments_batch (snd st) (fst st) False else snd st)"
    unfolding process_shared_segments_alignments_def Let_def
      scores_def[symmetric] C_def[symmetric] M_def[symmetric] loop
    by (simp add: case_prod_unfold)
  have "inserted (if fst st \<noteq> [] then save_alignments_batch (snd st) (fst st) False else snd st)
          = inserted (snd st) @ map (bind_row False) (fst st)"
    using inv store by (intro flush_rows) simp_all
  then have "inserted (if fst st \<noteq> [] then save_alignments_batch (snd st) (fst st) False
                       else snd st)
               = inserted db @ map (\<lambda>p. bind_row False (f p)) ps"
    using inv by simp
  then show ?thesis
    unfolding res by (simp add: f_def ps_def scores_def case_prod_unfold)
qed

text \<open>
  C1: one run of the pairwise sweep over a corpus of \<open>N\<close> entities makes \<open>N (N - 1) / 2\<close>
  records, one for each unordered pair of distinct positions \<open>i < j\<close> of the corpus, in
  the order of the nested scan, and each record carries the five scores of its pair:
  the five global alignments in \<open>process_alignments\<close> (levels note and structure, and the
  segments), the five quantized profile distances in
  \<open>process_shared_segments_alignments\<close>. The records are observed as the rows inserted
  into a database that prepares the insert statement and takes every insert; for the
  shared segments the group ids are non-negative, as the vector of occurrences indexed
  by group id requires.
\<close>

theorem pairwise_sweep_complete:
  "(prepares db (if is_segment then InsertSegmentAlignment else InsertScoreAlignment)
      \<and> (\<forall>t r. accepts db t r)
    \<longrightarrow> inserted (process_alignments db data is_segment lvl)
          = inserted db @ map (\<lambda>(i, j). bind_row is_segment
                                 (alignment_scores (data ! i) (data ! j) lvl))
                            (pair_indices (length data))
        \<and> length (inserted (process_alignments db data is_segment lvl))
          = length (inserted db) + length data * (length data - 1) div 2)
   \<and> (prepares db InsertScoreAlignment \<and> (\<forall>t r. accepts db t r)
      \<and> (\<forall>s ft. \<forall>g \<in> set (group_ids db s ft). 0 \<le> g)
      \<and> (\<forall>ft m. max_group db ft = Some m \<longrightarrow> 0 \<le> m \<and> m < INT_MAX)
    \<longrightarrow> (\<exists>db'. process_shared_segments_alignments db lvl = Inr db'
          \<and> inserted db'
              = inserted db @ map (\<lambda>(i, j). bind_row False
                   \<lparr>id1 = get_all_score_ids db ! i, id2 = get_all_score_ids db ! j, level = lvl,
                    diatonic_score = ProfileDistance db (get_all_score_ids db ! i)
                      (get_all_score_ids db ! j) ''diatonic'',
                    chromatic_score = ProfileDistance db (get_all_score_ids db ! i)
                      (get_all_score_ids db ! j) ''chromatic'',
                    rhythmic_score = ProfileDistance db (get_all_score_ids db ! i)
                      (get_all_score_ids db ! j) ''rhythmic'',
                    diatonic_rhythmic_score = ProfileDistance db (get_all_score_ids db ! i)
                      (get_all_score_ids db ! j) ''diatonic_rhythmic'',
                    chromatic_rhythmic_score = ProfileDistance db (get_all_score_ids db ! i)
                      (get_all_score_ids db ! j) ''chromatic_rhythmic''\<rparr>)
                 (pair_indices (length (get_all_score_ids db)))
          \<and> length (inserted db')
              = length (inserted db)
                + length (get_all_score_ids db) * (length (get_all_score_ids db) - 1) div 2))
   \<and> length (pair_indices n) = n * (n - 1) div 2
   \<and> distinct (pair_indices n)
   \<and> set (pair_indices n) = {(i, j). i < j \<and> j < n}
   \<and> row_scores (bind_row is_segment (alignment_scores a b lvl))
       = [sint (global_alignment (diatonic_feature a) (diatonic_feature b) 0 1 1),
          sint (global_alignment (chromatic_feature a) (chromatic_feature b) 0 1 1),
          sint (global_alignment (rhythmic_feature a) (rhythmic_feature b) 0 1 1),
          sint (global_alignment (diatonic_rhythmic_feature a) (diatonic_rhythmic_feature b)
                  0 1 1),
          sint (global_alignment (chromatic_rhythmic_feature a) (chromatic_rhythmic_feature b)
                  0 1 1)]"
proof (intro conjI impI)
  assume a: "prepares db (if is_segment then InsertSegmentAlignment else InsertScoreAlignment)
      \<and> (\<forall>t r. accepts db t r)"
  then show rows: "inserted (process_alignments db data is_segment lvl)
          = inserted db @ map (\<lambda>(i, j). bind_row is_segment
                                 (alignment_scores (data ! i) (data ! j) lvl))
                            (pair_indices (length data))"
    by (intro process_alignments_rows) simp_all
  show "length (inserted (process_alignments db data is_segment lvl))
          = length (inserted db) + length data * (length data - 1) div 2"
    unfolding rows by (simp add: length_pair_indices)
next
  assume a: "prepares db InsertScoreAlignment \<and> (\<forall>t r. accepts db t r)
      \<and> (\<forall>s ft. \<forall>g \<in> set (group_ids db s ft). 0 \<le> g)
      \<and> (\<forall>ft m. max_group db ft = Some m \<longrightarrow> 0 \<le> m \<and> m < INT_MAX)"
  then obtain db' where db': "process_shared_segments_alignments db lvl = Inr db'"
    "inserted db'
              = inserted db @ map (\<lambda>(i, j). bind_row False
                   \<lparr>id1 = get_all_score_ids db ! i, id2 = get_all_score_ids db ! j, level = lvl,
                    diatonic_score = ProfileDistance db (get_all_score_ids db ! i)
                      (get_all_score_ids db ! j) ''diatonic'',
                    chromatic_score = ProfileDistance db (get_all_score_ids db ! i)
                      (get_all_score_ids db ! j) ''chromatic'',
                    rhythmic_score = ProfileDistance db (get_all_score_ids db ! i)
                      (get_all_score_ids db ! j) ''rhythmic'',
                    diatonic_rhythmic_score = ProfileDistance db (get_all_score_ids db ! i)
                      (get_all_score_ids db ! j) ''diatonic_rhythmic'',
                    chromatic_rhythmic_score = ProfileDistance db (get_all_score_ids db ! i)
                      (get_all_score_ids db ! j) ''chromatic_rhythmic''\<rparr>)
                 (pair_indices (length (get_all_score_ids db)))"
    using process_shared_segments_alignments_rows[of db lvl] by blast
  have "length (inserted db')
              = length (inserted db)
                + length (get_all_score_ids db) * (length (get_all_score_ids db) - 1) div 2"
    unfolding db'(2) by (simp add: length_pair_indices)
  with db' show "\<exists>db'. process_shared_segments_alignments db lvl = Inr db'
          \<and> inserted db'
              = inserted db @ map (\<lambda>(i, j). bind_row False
                   \<lparr>id1 = get_all_score_ids db ! i, id2 = get_all_score_ids db ! j, level = lvl,
                    diatonic_score = ProfileDistance db (get_all_score_ids db ! i)
                      (get_all_score_ids db ! j) ''diatonic'',
                    chromatic_score = ProfileDistance db (get_all_score_ids db ! i)
                      (get_all_score_ids db ! j) ''chromatic'',
                    rhythmic_score = ProfileDistance db (get_all_score_ids db ! i)
                      (get_all_score_ids db ! j) ''rhythmic'',
                    diatonic_rhythmic_score = ProfileDistance db (get_all_score_ids db ! i)
                      (get_all_score_ids db ! j) ''diatonic_rhythmic'',
                    chromatic_rhythmic_score = ProfileDistance db (get_all_score_ids db ! i)
                      (get_all_score_ids db ! j) ''chromatic_rhythmic''\<rparr>)
                 (pair_indices (length (get_all_score_ids db)))
          \<and> length (inserted db')
              = length (inserted db)
                + length (get_all_score_ids db) * (length (get_all_score_ids db) - 1) div 2"
    by blast
next
  show "length (pair_indices n) = n * (n - 1) div 2" by (rule length_pair_indices)
  show "distinct (pair_indices n)" by (rule distinct_pair_indices)
  show "set (pair_indices n) = {(i, j). i < j \<and> j < n}" by (rule set_pair_indices)
  show "row_scores (bind_row is_segment (alignment_scores a b lvl))
       = [sint (global_alignment (diatonic_feature a) (diatonic_feature b) 0 1 1),
          sint (global_alignment (chromatic_feature a) (chromatic_feature b) 0 1 1),
          sint (global_alignment (rhythmic_feature a) (rhythmic_feature b) 0 1 1),
          sint (global_alignment (diatonic_rhythmic_feature a) (diatonic_rhythmic_feature b)
                  0 1 1),
          sint (global_alignment (chromatic_rhythmic_feature a) (chromatic_rhythmic_feature b)
                  0 1 1)]"
    by (simp add: bind_row_def alignment_scores_def)
qed

text \<open>The sweep over the corpus of three scores.\<close>

lemma three_scores_data:
  "get_feature_data three_scores False False
     = [\<lparr>id' = 1, diatonic_feature = [Some 1], chromatic_feature = [Some 1],
         rhythmic_feature = [Some 1], diatonic_rhythmic_feature = [Some 1],
         chromatic_rhythmic_feature = [Some 1]\<rparr>,
        \<lparr>id' = 2, diatonic_feature = [Some 1], chromatic_feature = [Some 1],
         rhythmic_feature = [Some 1], diatonic_rhythmic_feature = [Some 1],
         chromatic_rhythmic_feature = [Some 1]\<rparr>,
        \<lparr>id' = 3, diatonic_feature = [Some 2], chromatic_feature = [Some 2],
         rhythmic_feature = [Some 2], diatonic_rhythmic_feature = [Some 2],
         chromatic_rhythmic_feature = [Some 2]\<rparr>]"
  by code_simp

lemma pair_indices_3: "pair_indices 3 = [(0, 1), (0, 2), (1, 2)]"
  by code_simp

lemma three_scores_note_rows:
  "map (\<lambda>(i, j). bind_row False
          (alignment_scores (get_feature_data three_scores False False ! i)
             (get_feature_data three_scores False False ! j) ''note''))
     (pair_indices (length (get_feature_data three_scores False False)))
   = [ScoreAlignment 1 2 ''note'' 0 0 0 0 0,
      ScoreAlignment 1 3 ''note'' 1 1 1 1 1,
      ScoreAlignment 2 3 ''note'' 1 1 1 1 1]"
proof -
  have len: "length (get_feature_data three_scores False False) = 3"
    by (simp add: three_scores_data)
  show ?thesis
    unfolding len pair_indices_3
    by (simp add: three_scores_data bind_row_def alignment_scores_def global_alignment_driver
        INT_MAX_def)
qed

lemma three_scores_vector:
  "map_to_vector (get_group_occurrences three_scores s ft) (get_max_group_id three_scores ft)
     = Inr [if s = 3 then Finite 0 else Finite 2]"
proof -
  have c: "static_cast_double 2 = Finite 2"
    by (simp add: static_cast_double_def round_to_double_simps)
  show ?thesis
    by (simp add: get_group_occurrences_def get_max_group_id_def three_scores_def
        map_to_vector_def map_to_vector_body_def INT_MAX_def Let_def c)
qed

lemma three_scores_ProfileDistance:
  "ProfileDistance three_scores 1 2 ft = 0"
  "ProfileDistance three_scores 1 3 ft = 200"
  "ProfileDistance three_scores 2 3 ft = 200"
  by (simp_all add: ProfileDistance_def three_scores_vector euclidean_distance_def
      double_Finite_simps round_to_double_simps INT_MIN_def INT_MAX_def)

theorem pairwise_sweep_complete_witness:
  "get_feature_data three_scores False False
     = [\<lparr>id' = 1, diatonic_feature = [Some 1], chromatic_feature = [Some 1],
         rhythmic_feature = [Some 1], diatonic_rhythmic_feature = [Some 1],
         chromatic_rhythmic_feature = [Some 1]\<rparr>,
        \<lparr>id' = 2, diatonic_feature = [Some 1], chromatic_feature = [Some 1],
         rhythmic_feature = [Some 1], diatonic_rhythmic_feature = [Some 1],
         chromatic_rhythmic_feature = [Some 1]\<rparr>,
        \<lparr>id' = 3, diatonic_feature = [Some 2], chromatic_feature = [Some 2],
         rhythmic_feature = [Some 2], diatonic_rhythmic_feature = [Some 2],
         chromatic_rhythmic_feature = [Some 2]\<rparr>]
   \<and> inserted (process_alignments three_scores (get_feature_data three_scores False False)
                 False ''note'')
     = [ScoreAlignment 1 2 ''note'' 0 0 0 0 0,
        ScoreAlignment 1 3 ''note'' 1 1 1 1 1,
        ScoreAlignment 2 3 ''note'' 1 1 1 1 1]
   \<and> (\<exists>db'. process_shared_segments_alignments three_scores ''shared_segments'' = Inr db'
          \<and> inserted db'
              = [ScoreAlignment 1 2 ''shared_segments'' 0 0 0 0 0,
                 ScoreAlignment 1 3 ''shared_segments'' 200 200 200 200 200,
                 ScoreAlignment 2 3 ''shared_segments'' 200 200 200 200 200])
   \<and> length (pair_indices 3) = 3"
proof -
  let ?data = "get_feature_data three_scores False False"
  have store: "prepares three_scores (if False then InsertSegmentAlignment else InsertScoreAlignment)
      \<and> (\<forall>t r. accepts three_scores t r)"
    by (simp add: three_scores_def)
  have groups: "prepares three_scores InsertScoreAlignment \<and> (\<forall>t r. accepts three_scores t r)
      \<and> (\<forall>s ft. \<forall>g \<in> set (group_ids three_scores s ft). 0 \<le> g)
      \<and> (\<forall>ft m. max_group three_scores ft = Some m \<longrightarrow> 0 \<le> m \<and> m < INT_MAX)"
    by (simp add: three_scores_def INT_MAX_def)
  have ids: "get_all_score_ids three_scores = [1, 2, 3]"
    by (simp add: get_all_score_ids_def three_scores_def)
  have len_ids: "length (get_all_score_ids three_scores) = 3" by (simp add: ids)
  have empty: "inserted three_scores = []" by (simp add: three_scores_def)
  note note_level = pairwise_sweep_complete[of three_scores False ?data "''note''" 3]
  note shared_level = pairwise_sweep_complete[of three_scores False ?data "''shared_segments''" 3]
  have 1: "inserted (process_alignments three_scores ?data False ''note'')
     = [ScoreAlignment 1 2 ''note'' 0 0 0 0 0,
        ScoreAlignment 1 3 ''note'' 1 1 1 1 1,
        ScoreAlignment 2 3 ''note'' 1 1 1 1 1]"
  proof -
    have "inserted (process_alignments three_scores ?data False ''note'')
          = inserted three_scores @ map (\<lambda>(i, j). bind_row False
                                 (alignment_scores (?data ! i) (?data ! j) ''note''))
                            (pair_indices (length ?data))"
      by (rule note_level[THEN conjunct1, THEN mp, OF store, THEN conjunct1])
    then show ?thesis
      unfolding three_scores_note_rows empty by simp
  qed
  have 2: "\<exists>db'. process_shared_segments_alignments three_scores ''shared_segments'' = Inr db'
          \<and> inserted db'
              = [ScoreAlignment 1 2 ''shared_segments'' 0 0 0 0 0,
                 ScoreAlignment 1 3 ''shared_segments'' 200 200 200 200 200,
                 ScoreAlignment 2 3 ''shared_segments'' 200 200 200 200 200]"
  proof -
    note ex = shared_level[THEN conjunct2, THEN conjunct1, THEN mp, OF groups]
    from ex obtain db' where db': "process_shared_segments_alignments three_scores ''shared_segments''
        = Inr db'"
      "inserted db'
              = inserted three_scores @ map (\<lambda>(i, j). bind_row False
                   \<lparr>id1 = get_all_score_ids three_scores ! i,
                    id2 = get_all_score_ids three_scores ! j, level = ''shared_segments'',
                    diatonic_score = ProfileDistance three_scores
                      (get_all_score_ids three_scores ! i)
                      (get_all_score_ids three_scores ! j) ''diatonic'',
                    chromatic_score = ProfileDistance three_scores
                      (get_all_score_ids three_scores ! i)
                      (get_all_score_ids three_scores ! j) ''chromatic'',
                    rhythmic_score = ProfileDistance three_scores
                      (get_all_score_ids three_scores ! i)
                      (get_all_score_ids three_scores ! j) ''rhythmic'',
                    diatonic_rhythmic_score = ProfileDistance three_scores
                      (get_all_score_ids three_scores ! i)
                      (get_all_score_ids three_scores ! j) ''diatonic_rhythmic'',
                    chromatic_rhythmic_score = ProfileDistance three_scores
                      (get_all_score_ids three_scores ! i)
                      (get_all_score_ids three_scores ! j) ''chromatic_rhythmic''\<rparr>)
                 (pair_indices (length (get_all_score_ids three_scores)))"
      by (elim exE conjE)
    have "inserted db'
              = [ScoreAlignment 1 2 ''shared_segments'' 0 0 0 0 0,
                 ScoreAlignment 1 3 ''shared_segments'' 200 200 200 200 200,
                 ScoreAlignment 2 3 ''shared_segments'' 200 200 200 200 200]"
      unfolding db'(2) len_ids pair_indices_3
      unfolding ids empty
      by (simp add: bind_row_def three_scores_ProfileDistance)
    with db'(1) show ?thesis by (intro exI[of _ db'] conjI)
  qed
  have 3: "length (pair_indices 3) = 3"
    by (simp add: pair_indices_3)
  show ?thesis using three_scores_data 1 2 3 by (intro conjI)
qed

section \<open>Properties of the command line\<close>

lemma initialize_database_Some:
  "initialize_database (Some db)
     = Some (db\<lparr>journal := journal db @
          [''PRAGMA journal_mode=WAL'', ''PRAGMA synchronous=OFF'',
           ''PRAGMA temp_store=MEMORY'', ''PRAGMA locking_mode=EXCLUSIVE'',
           ''PRAGMA cache_size=-2000000'', ''PRAGMA mmap_size=8589934592'',
           ''PRAGMA page_size=4096'', ''BEGIN TRANSACTION'']\<rparr>)"
  by (simp add: initialize_database_def sqlite3_exec_def)

lemma get_feature_data_journal:
  "get_feature_data (db\<lparr>journal := j\<rparr>) is_segment is_structure
     = get_feature_data db is_segment is_structure"
proof -
  have s: "\<And>i ft. get_structural_feature (db\<lparr>journal := j\<rparr>) i ft = get_structural_feature db i ft"
    by (simp add: get_structural_feature_def)
  have q: "\<And>sql. query_rows (db\<lparr>journal := j\<rparr>) sql = query_rows db sql"
    by (simp add: query_rows_def)
  show ?thesis
    by (simp add: get_feature_data_def s q)
qed

text \<open>
  C10: the command line is read as score mode whenever its first argument is not exactly
  \<open>--type=segment\<close>. A type the usage text does not name, such as \<open>--type=banana\<close>,
  followed by \<open>--level\<close> and one of the three levels passes the checks, and \<open>main\<close> does
  what it does for \<open>--type=score\<close>: once the database is open it runs the sweep over the
  scores at that level and, when the sweep returns, ends with exit status 0, not with the
  exit status 1 of a rejected command line.
\<close>

theorem unrecognized_type_is_score_mode:
  assumes "type_argument \<noteq> ''--type=segment''"
    and "lvl = ''note'' \<or> lvl = ''structure'' \<or> lvl = ''shared_segments''"
  shows "parse_arguments [program, type_argument, ''--level'', lvl] = Inr (False, lvl)
       \<and> main [program, type_argument, ''--level'', lvl] opened
           = main [program, ''--type=score'', ''--level'', lvl] opened
       \<and> (\<exists>d. initialize_database (Some db) = Some d
             \<and> main [program, type_argument, ''--level'', lvl] (Some db)
                 = (case (if lvl = ''shared_segments'' then
                            process_shared_segments_alignments d lvl
                          else
                            Inr (process_alignments d
                                   (get_feature_data d False (lvl = ''structure'')) False lvl)) of
                      Inl e \<Rightarrow> Terminated e
                    | Inr db' \<Rightarrow>
                        Exit 0 (Some (sqlite3_exec (sqlite3_exec db' ''COMMIT'')
                                        ''PRAGMA synchronous=FULL''))))"
proof -
  have p: "parse_arguments [program, type_argument, ''--level'', lvl] = Inr (False, lvl)"
    using assms by (auto simp: parse_arguments_def Let_def)
  have q: "parse_arguments [program, ''--type=score'', ''--level'', lvl] = Inr (False, lvl)"
    using assms(2) by (auto simp: parse_arguments_def Let_def)
  have m: "main [program, type_argument, ''--level'', lvl] opened
           = main [program, ''--type=score'', ''--level'', lvl] opened"
    by (simp add: main_def p q)
  obtain d where d: "initialize_database (Some db) = Some d"
    by (simp add: initialize_database_def)
  have "main [program, type_argument, ''--level'', lvl] (Some db)
                 = (case (if lvl = ''shared_segments'' then
                            process_shared_segments_alignments d lvl
                          else
                            Inr (process_alignments d
                                   (get_feature_data d False (lvl = ''structure'')) False lvl)) of
                      Inl e \<Rightarrow> Terminated e
                    | Inr db' \<Rightarrow>
                        Exit 0 (Some (sqlite3_exec (sqlite3_exec db' ''COMMIT'')
                                        ''PRAGMA synchronous=FULL'')))"
    by (simp add: main_def p d)
  with p m d show ?thesis by (intro conjI exI[of _ d])
qed

text \<open>The corpus of three scores, swept at the level of the notes.\<close>

theorem unrecognized_type_is_score_mode_witness:
  "''--type=banana'' \<noteq> ''--type=segment''
   \<and> parse_arguments [''compute_features_alignment'', ''--type=banana'', ''--level'', ''note'']
       = Inr (False, ''note'')
   \<and> (\<exists>d. main [''compute_features_alignment'', ''--type=banana'', ''--level'', ''note'']
              (Some three_scores) = Exit 0 (Some d)
          \<and> inserted d
              = [ScoreAlignment 1 2 ''note'' 0 0 0 0 0,
                 ScoreAlignment 1 3 ''note'' 1 1 1 1 1,
                 ScoreAlignment 2 3 ''note'' 1 1 1 1 1])"
proof -
  have t: "''--type=banana'' \<noteq> ''--type=segment''" by simp
  have l: "''note'' = ''note'' \<or> ''note'' = ''structure'' \<or> ''note'' = ''shared_segments''"
    by simp
  note inst = unrecognized_type_is_score_mode[OF t l, of "''compute_features_alignment''"
      None three_scores]
  from inst have p:
    "parse_arguments [''compute_features_alignment'', ''--type=banana'', ''--level'', ''note'']
       = Inr (False, ''note'')"
    by (rule conjunct1)
  from inst obtain d0 where d0: "initialize_database (Some three_scores) = Some d0"
    and run: "main [''compute_features_alignment'', ''--type=banana'', ''--level'', ''note'']
                (Some three_scores)
              = Exit 0 (Some (sqlite3_exec (sqlite3_exec
                  (process_alignments d0 (get_feature_data d0 False False) False ''note'')
                  ''COMMIT'') ''PRAGMA synchronous=FULL''))"
    by auto
  have d0_eq: "d0 = three_scores\<lparr>journal := journal three_scores @
          [''PRAGMA journal_mode=WAL'', ''PRAGMA synchronous=OFF'',
           ''PRAGMA temp_store=MEMORY'', ''PRAGMA locking_mode=EXCLUSIVE'',
           ''PRAGMA cache_size=-2000000'', ''PRAGMA mmap_size=8589934592'',
           ''PRAGMA page_size=4096'', ''BEGIN TRANSACTION'']\<rparr>"
    using d0 unfolding initialize_database_Some by simp
  have fields: "prepares d0 = prepares three_scores" "accepts d0 = accepts three_scores"
    "inserted d0 = inserted three_scores"
    "get_feature_data d0 False False = get_feature_data three_scores False False"
    unfolding d0_eq get_feature_data_journal by simp_all
  have empty: "inserted three_scores = []" by (simp add: three_scores_def)
  have store: "prepares d0 (if False then InsertSegmentAlignment else InsertScoreAlignment)"
    "\<forall>t r. accepts d0 t r"
    by (simp_all add: fields three_scores_def)
  have "inserted (process_alignments d0 (get_feature_data d0 False False) False ''note'')
          = [ScoreAlignment 1 2 ''note'' 0 0 0 0 0,
             ScoreAlignment 1 3 ''note'' 1 1 1 1 1,
             ScoreAlignment 2 3 ''note'' 1 1 1 1 1]"
    unfolding process_alignments_rows[OF store] fields three_scores_note_rows empty
    by simp
  then have "inserted (sqlite3_exec (sqlite3_exec
                  (process_alignments d0 (get_feature_data d0 False False) False ''note'')
                  ''COMMIT'') ''PRAGMA synchronous=FULL'')
          = [ScoreAlignment 1 2 ''note'' 0 0 0 0 0,
             ScoreAlignment 1 3 ''note'' 1 1 1 1 1,
             ScoreAlignment 2 3 ''note'' 1 1 1 1 1]"
    by simp
  with run have "\<exists>d. main [''compute_features_alignment'', ''--type=banana'', ''--level'', ''note'']
              (Some three_scores) = Exit 0 (Some d)
          \<and> inserted d
              = [ScoreAlignment 1 2 ''note'' 0 0 0 0 0,
                 ScoreAlignment 1 3 ''note'' 1 1 1 1 1,
                 ScoreAlignment 2 3 ''note'' 1 1 1 1 1]"
    by (intro exI conjI)
  with t p show ?thesis by (intro conjI)
qed

end
